theory Spec2Isabelle
  imports Main "HOL-Library.Word" "HOL-Library.Multiset"
begin

unbundle bit_operations_syntax

section \<open>Data model of mkpins.c\<close>

text \<open>
  C \<open>int\<close> is a 32-bit two's complement value, read with \<open>sint\<close>. The register images
  are \<open>unsigned long\<close>, whose width depends on the platform (32 bits on ILP32 and on
  Windows, 64 bits on LP64): the width is the type parameter \<open>'w\<close> of the register
  arrays. An \<open>int\<close> converted to \<open>unsigned long\<close> is reduced modulo the width, which
  is the sign-extending cast \<open>scast\<close>. The field \<open>bit\<close> of the structure is \<open>bitno\<close>
  here. A character array that holds a C string is the string before its NUL.
\<close>

type_synonym cint = "32 word"

record PINDEF =
  seq :: cint
  pinnum :: cint
  port :: cint
  bitno :: cint
  altfunc1 :: string
  altfunc2 :: string
  altfunc3 :: string
  signame :: string
  func :: cint
  inout :: cint
  mode :: cint
  odrain :: cint
  def :: cint
  active :: cint

definition MAXCHARS :: nat where "MAXCHARS = 256"
definition MAXPINS :: nat where "MAXPINS = 256"
definition NA :: cint where "NA = 0xff"
definition IN :: cint where "IN = 1"
definition OUT :: cint where "OUT = 0"

definition ulong :: "cint \<Rightarrow> 'w::len word" where
  "ulong x = scast x"

text \<open>
  \<open>x << n\<close> on \<open>int\<close>: the shift count must lie in 0..31, anything else is undefined in
  C and is \<open>None\<close> here. A result that leaves the range of \<open>int\<close> wraps, as gcc defines
  it (\<open>1 << 31\<close> is the sign bit).
\<close>

definition shl :: "cint \<Rightarrow> int \<Rightarrow> cint option" where
  "shl x n = (if 0 \<le> n \<and> n < 32 then Some (push_bit (nat n) x) else None)"

text \<open>An array element: an index outside the array is undefined in C, \<open>None\<close> here.\<close>

definition elem :: "'a list \<Rightarrow> int \<Rightarrow> 'a option" where
  "elem a i = (if 0 \<le> i \<and> i < int (length a) then Some (a ! nat i) else None)"

section \<open>Register accumulators\<close>

subsection \<open>calc_PINSEL\<close>

text \<open>The sub-register and the shift of a pin, as calc_PINSEL computes them.\<close>

definition PINSEL_reg_bit2 :: "int \<Rightarrow> int \<Rightarrow> int \<times> int" where
  "PINSEL_reg_bit2 prt b = (if b < 16 then (prt * 2, 2 * b) else (1 + prt * 2, 2 * (b - 16)))"

text \<open>One iteration of the loop of calc_PINSEL, for the pin \<open>p\<close>.\<close>

definition PINSEL_pin :: "PINDEF \<Rightarrow> 'w::len word list \<Rightarrow> 'w word list option" where
  "PINSEL_pin p PINSEL =
    (let (reg, bit2) = PINSEL_reg_bit2 (sint (port p)) (sint (bitno p)) in
     case (elem PINSEL reg, shl 0x03 bit2, shl (func p) bit2) of
       (Some r, Some m, Some f) \<Rightarrow>
         Some (PINSEL[nat reg := (r AND ulong (NOT m)) OR ulong f])
     | _ \<Rightarrow> None)"

fun calc_PINSEL :: "PINDEF list \<Rightarrow> 'w::len word list \<Rightarrow> 'w word list option" where
  "calc_PINSEL [] PINSEL = Some PINSEL"
| "calc_PINSEL (p # ps) PINSEL =
     (case PINSEL_pin p PINSEL of None \<Rightarrow> None | Some r \<Rightarrow> calc_PINSEL ps r)"

subsection \<open>calc_PINMODE\<close>

definition PINMODE_reg_bit2 :: "int \<Rightarrow> int \<Rightarrow> int \<times> int" where
  "PINMODE_reg_bit2 prt b = (if b < 16 then (prt * 2, 2 * b) else (1 + prt * 2, 2 * (b - 16)))"

text \<open>
  A single-bit update of a port-indexed register, \<open>R[port] |= (1<<bit)\<close> when \<open>on\<close>
  holds and \<open>R[port] &= ~(1<<bit)\<close> otherwise.
\<close>

definition port_bit :: "bool \<Rightarrow> int \<Rightarrow> int \<Rightarrow> 'w::len word list \<Rightarrow> 'w word list option" where
  "port_bit on prt b R =
    (case (elem R prt, shl 1 b) of
       (Some r, Some m) \<Rightarrow>
         Some (R[nat prt := (if on then r OR ulong m else r AND ulong (NOT m))])
     | _ \<Rightarrow> None)"

definition PINMODE_pin ::
  "PINDEF \<Rightarrow> 'w::len word list \<times> 'w word list \<Rightarrow> ('w word list \<times> 'w word list) option" where
  "PINMODE_pin p S =
    (let (PINMODE, PINMODE_OD) = S;
         (reg, bit2) = PINMODE_reg_bit2 (sint (port p)) (sint (bitno p)) in
     case (elem PINMODE reg, shl 0x03 bit2, shl (mode p) bit2) of
       (Some r, Some m, Some f) \<Rightarrow>
         let PINMODE' = PINMODE[nat reg := (r AND ulong (NOT m)) OR ulong f] in
         (case (if odrain p = 1 then port_bit True (sint (port p)) (sint (bitno p)) PINMODE_OD
                else Some PINMODE_OD) of
            None \<Rightarrow> None
          | Some OD1 \<Rightarrow>
              (case (if odrain p = 0 then port_bit False (sint (port p)) (sint (bitno p)) OD1
                     else Some OD1) of
                 None \<Rightarrow> None
               | Some OD2 \<Rightarrow> Some (PINMODE', OD2)))
     | _ \<Rightarrow> None)"

fun calc_PINMODE ::
  "PINDEF list \<Rightarrow> 'w::len word list \<times> 'w word list \<Rightarrow> ('w word list \<times> 'w word list) option" where
  "calc_PINMODE [] S = Some S"
| "calc_PINMODE (p # ps) S =
     (case PINMODE_pin p S of None \<Rightarrow> None | Some S' \<Rightarrow> calc_PINMODE ps S')"

subsection \<open>calc_FIODIR, calc_FIOPIN, calc_FIOMASK\<close>

definition FIODIR_pin :: "PINDEF \<Rightarrow> 'w::len word list \<Rightarrow> 'w word list option" where
  "FIODIR_pin p FIODIR =
    (case (if inout p = IN then port_bit False (sint (port p)) (sint (bitno p)) FIODIR
           else Some FIODIR) of
       None \<Rightarrow> None
     | Some F1 \<Rightarrow>
         (if inout p = OUT then port_bit True (sint (port p)) (sint (bitno p)) F1
          else Some F1))"

fun calc_FIODIR :: "PINDEF list \<Rightarrow> 'w::len word list \<Rightarrow> 'w word list option" where
  "calc_FIODIR [] FIODIR = Some FIODIR"
| "calc_FIODIR (p # ps) FIODIR =
     (case FIODIR_pin p FIODIR of None \<Rightarrow> None | Some r \<Rightarrow> calc_FIODIR ps r)"

definition FIOPIN_pin :: "PINDEF \<Rightarrow> 'w::len word list \<Rightarrow> 'w word list option" where
  "FIOPIN_pin p FIOPIN =
    (case (if def p = 0 then port_bit False (sint (port p)) (sint (bitno p)) FIOPIN
           else Some FIOPIN) of
       None \<Rightarrow> None
     | Some F1 \<Rightarrow>
         (if def p = 1 then port_bit True (sint (port p)) (sint (bitno p)) F1
          else Some F1))"

fun calc_FIOPIN :: "PINDEF list \<Rightarrow> 'w::len word list \<Rightarrow> 'w word list option" where
  "calc_FIOPIN [] FIOPIN = Some FIOPIN"
| "calc_FIOPIN (p # ps) FIOPIN =
     (case FIOPIN_pin p FIOPIN of None \<Rightarrow> None | Some r \<Rightarrow> calc_FIOPIN ps r)"

definition FIOMASK_pin :: "PINDEF \<Rightarrow> 'w::len word list \<Rightarrow> 'w word list option" where
  "FIOMASK_pin p FIOMASK =
    (if func p = 0 then port_bit False (sint (port p)) (sint (bitno p)) FIOMASK
     else Some FIOMASK)"

fun FIOMASK_loop :: "PINDEF list \<Rightarrow> 'w::len word list \<Rightarrow> 'w word list option" where
  "FIOMASK_loop [] FIOMASK = Some FIOMASK"
| "FIOMASK_loop (p # ps) FIOMASK =
     (case FIOMASK_pin p FIOMASK of None \<Rightarrow> None | Some r \<Rightarrow> FIOMASK_loop ps r)"

text \<open>calc_FIOMASK first stores \<open>0xffffffffL\<close> in each of the five elements.\<close>

definition calc_FIOMASK :: "PINDEF list \<Rightarrow> 'w::len word list option" where
  "calc_FIOMASK pins = FIOMASK_loop pins (replicate 5 0xffffffff)"

section \<open>Record parser\<close>

subsection \<open>C library functions\<close>

text \<open>
  \<open>fgets(line, n, fin)\<close> on the rest of the file: at most \<open>n - 1\<close> characters, ending
  after a newline; \<open>None\<close> at end of file. The result is the buffer and the rest.
  The file is read as its bytes are, as on Unix.
\<close>

fun fgets_chars :: "nat \<Rightarrow> string \<Rightarrow> string \<times> string" where
  "fgets_chars 0 cs = ([], cs)"
| "fgets_chars (Suc n) [] = ([], [])"
| "fgets_chars (Suc n) (c # cs) =
     (if c = CHR 0x0A then ([c], cs)
      else (case fgets_chars n cs of (l, r) \<Rightarrow> (c # l, r)))"

definition fgets :: "nat \<Rightarrow> string \<Rightarrow> (string \<times> string) option" where
  "fgets n f = (if f = [] then None else Some (fgets_chars (n - 1) f))"

text \<open>A buffer read as a C string ends at its first NUL character.\<close>

definition cstr :: "string \<Rightarrow> string" where
  "cstr buf = takeWhile (\<lambda>c. c \<noteq> CHR 0x00) buf"

definition isspace :: "char \<Rightarrow> bool" where
  "isspace c = (c = CHR 0x20 \<or> c = CHR 0x09 \<or> c = CHR 0x0A \<or> c = CHR 0x0B \<or>
                c = CHR 0x0C \<or> c = CHR 0x0D)"

definition isdigit :: "char \<Rightarrow> bool" where
  "isdigit c = (48 \<le> (of_char c :: nat) \<and> (of_char c :: nat) \<le> 57)"

fun dec_value :: "int \<Rightarrow> string \<Rightarrow> int" where
  "dec_value acc [] = acc"
| "dec_value acc (c # cs) = dec_value (acc * 10 + (of_char c - 48)) cs"

text \<open>
  \<open>sscanf(field, "%d", &itemp)\<close>: white space is skipped, then an optional sign and at
  least one digit are read. \<open>Unmatched\<close> is every return value other than 1. A number
  outside the range of \<open>int\<close> is undefined behaviour: \<open>Unrepresentable\<close>.
\<close>

datatype scanned = Matched cint | Unmatched | Unrepresentable

definition sscanf_d :: "string \<Rightarrow> scanned" where
  "sscanf_d s =
    (let t = dropWhile isspace s;
         neg = (t \<noteq> [] \<and> hd t = CHR ''-'');
         u = (if t \<noteq> [] \<and> (hd t = CHR ''-'' \<or> hd t = CHR ''+'') then tl t else t);
         ds = takeWhile isdigit u;
         n = dec_value 0 ds;
         v = (if neg then - n else n)
     in if ds = [] then Unmatched
        else if - (2 ^ 31) \<le> v \<and> v < 2 ^ 31 then Matched (word_of_int v)
        else Unrepresentable)"

definition strcspn_comma :: "string \<Rightarrow> nat" where
  "strcspn_comma s = length (takeWhile (\<lambda>c. c \<noteq> CHR '','') s)"

definition strncpy :: "string \<Rightarrow> nat \<Rightarrow> string" where
  "strncpy src n = take n src"

subsection \<open>Scanning the fields of a line\<close>

text \<open>
  The loop that copies a field to the temporary string: a double quote in the first
  and in the last position of the field is left out.
\<close>

fun copy_loop :: "nat \<Rightarrow> nat \<Rightarrow> string \<Rightarrow> string" where
  "copy_loop j len [] = []"
| "copy_loop j len (c # cs) =
     (if j = 0 \<and> c = CHR 0x22 then copy_loop (Suc j) len cs
      else if Suc j = len \<and> c = CHR 0x22 then copy_loop (Suc j) len cs
      else c # copy_loop (Suc j) len cs)"

definition copy_field :: "string \<Rightarrow> nat \<Rightarrow> nat \<Rightarrow> string" where
  "copy_field lp beg len = copy_loop 0 len (take len (drop beg lp))"

text \<open>
  The local variables of main that hold the fields of the current line have the
  fields of a \<open>PINDEF\<close>; this is their value at the start of every line.
\<close>

definition line_init :: PINDEF where
  "line_init = \<lparr>seq = 0, pinnum = 0, port = 0, bitno = 0,
     altfunc1 = [], altfunc2 = [], altfunc3 = [], signame = [],
     func = NA, inout = NA, mode = 0, odrain = 0, def = 0, active = 1\<rparr>"

datatype field_result = Next PINDEF | Break | Error | Undef

text \<open>A required number: \<open>goto MYERROR\<close> when it does not scan.\<close>

definition required :: "string \<Rightarrow> (cint \<Rightarrow> PINDEF) \<Rightarrow> field_result" where
  "required field store =
    (case sscanf_d field of Matched x \<Rightarrow> Next (store x) | Unmatched \<Rightarrow> Error
     | Unrepresentable \<Rightarrow> Undef)"

text \<open>An optional number: the variable keeps its value when it does not scan.\<close>

definition optional :: "string \<Rightarrow> PINDEF \<Rightarrow> (cint \<Rightarrow> PINDEF) \<Rightarrow> field_result" where
  "optional field v store =
    (case sscanf_d field of Matched x \<Rightarrow> Next (store x) | Unmatched \<Rightarrow> Next v
     | Unrepresentable \<Rightarrow> Undef)"

text \<open>The body of \<open>if(len!=0)\<close> for the field with index \<open>i\<close>.\<close>

definition parse_field :: "nat \<Rightarrow> string \<Rightarrow> PINDEF \<Rightarrow> field_result" where
  "parse_field i field v =
    (if i = 0 then required field (\<lambda>x. v\<lparr>seq := x\<rparr>)
     else if i = 1 then
       (if take 3 field = ''N/A'' then Break else required field (\<lambda>x. v\<lparr>pinnum := x\<rparr>))
     else if i = 2 then required field (\<lambda>x. v\<lparr>port := x\<rparr>)
     else if i = 3 then required field (\<lambda>x. v\<lparr>bitno := x\<rparr>)
     else if i = 4 then
       Next (if length field > 1 then v\<lparr>altfunc1 := strncpy field MAXCHARS\<rparr> else v)
     else if i = 5 then
       Next (if length field > 1 then v\<lparr>altfunc2 := strncpy field MAXCHARS\<rparr> else v)
     else if i = 6 then
       Next (if length field > 1 then v\<lparr>altfunc3 := strncpy field MAXCHARS\<rparr> else v)
     else if i = 7 then
       Next (if length field > 1 then v\<lparr>signame := strncpy field MAXCHARS\<rparr> else v)
     else if i = 8 then optional field v (\<lambda>x. v\<lparr>func := x\<rparr>)
     else if i = 9 then optional field v (\<lambda>x. v\<lparr>inout := x\<rparr>)
     else if i = 10 then optional field v (\<lambda>x. v\<lparr>mode := x\<rparr>)
     else if i = 11 then optional field v (\<lambda>x. v\<lparr>odrain := x\<rparr>)
     else if i = 12 then optional field v (\<lambda>x. v\<lparr>def := x\<rparr>)
     else if i = 13 then optional field v (\<lambda>x. v\<lparr>active := x\<rparr>)
     else Next v)"

text \<open>
  The loop \<open>for(i=0;i<14;i++)\<close> over the fields of the line \<open>lp\<close>, from the field
  \<open>i\<close> at the offset \<open>beg\<close>. \<open>Fatal i field\<close> is the jump to \<open>MYERROR\<close>.
\<close>

datatype line_scan = Scanned PINDEF | Fatal nat string | Undefined

definition advance :: "string \<Rightarrow> nat \<Rightarrow> nat \<Rightarrow> nat" where
  "advance lp beg len = (if beg + len < length lp then beg + len + 1 else beg + len)"

function scan_fields :: "string \<Rightarrow> nat \<Rightarrow> nat \<Rightarrow> PINDEF \<Rightarrow> line_scan" where
  "scan_fields lp i beg v =
    (if i < 14 then
       (let len = strcspn_comma (drop beg lp);
            field = copy_field lp beg len
        in case (if len \<noteq> 0 then parse_field i field v else Next v) of
             Error \<Rightarrow> Fatal i field
           | Undef \<Rightarrow> Undefined
           | Break \<Rightarrow> Scanned v
           | Next v' \<Rightarrow> scan_fields lp (Suc i) (advance lp beg len) v')
     else Scanned v)"
  by pat_completeness auto
termination
  by (relation "measure (\<lambda>(lp, i, beg, v). 14 - i)") auto

declare scan_fields.simps [simp del]

text \<open>
  The values that the loop records for the field \<open>i\<close> of a line: its offset
  \<open>field_beg[i]\<close>, its length \<open>len\<close> up to the next comma, and the temporary string
  \<open>field\<close> without the quotes.
\<close>

fun field_beg :: "string \<Rightarrow> nat \<Rightarrow> nat" where
  "field_beg lp 0 = 0"
| "field_beg lp (Suc i) =
     (let beg = field_beg lp i in advance lp beg (strcspn_comma (drop beg lp)))"

definition field_len :: "string \<Rightarrow> nat \<Rightarrow> nat" where
  "field_len lp i = strcspn_comma (drop (field_beg lp i) lp)"

definition field_text :: "string \<Rightarrow> nat \<Rightarrow> string" where
  "field_text lp i = copy_field lp (field_beg lp i) (field_len lp i)"

text \<open>
  The field \<open>j\<close> lets the loop go on to the next field: it is empty, or its text is
  parsed without the jump to \<open>MYERROR\<close>, without the \<open>break\<close> of "N/A" and without a
  number out of range.
\<close>

definition field_passes :: "string \<Rightarrow> nat \<Rightarrow> bool" where
  "field_passes lp j =
    (field_len lp j = 0 \<or>
     (case parse_field j (field_text lp j) line_init of Next v \<Rightarrow> True | _ \<Rightarrow> False))"

section \<open>Emitter\<close>

text \<open>The digits of a number that is not negative, in a base from 2 to 16.\<close>

function digits :: "int \<Rightarrow> int \<Rightarrow> string" where
  "digits base n =
    (if n < base \<or> base < 2 then [''0123456789abcdef'' ! nat n]
     else digits base (n div base) @ [''0123456789abcdef'' ! nat (n mod base)])"
  by pat_completeness auto
termination
proof (relation "measure (\<lambda>(base, n). nat n)")
  show "wf (measure (\<lambda>(base, n). nat n))" by simp
next
  fix base n :: int
  assume "\<not> (n < base \<or> base < 2)"
  then have "2 \<le> base" "base \<le> n" by simp_all
  then have "n div base < n" by (simp add: int_div_less_self)
  with \<open>2 \<le> base\<close> \<open>base \<le> n\<close> show "((base, n div base), (base, n)) \<in> measure (\<lambda>(base, n). nat n)"
    by simp
qed

declare digits.simps [simp del]

text \<open>The conversions \<open>%d\<close> of an \<open>int\<close> and \<open>%08lx\<close> of an \<open>unsigned long\<close>.\<close>

definition fmt_d :: "cint \<Rightarrow> string" where
  "fmt_d x = (if sint x < 0 then CHR ''-'' # digits 10 (- sint x)
              else digits 10 (sint x))"

definition fmt_08lx :: "'w::len word \<Rightarrow> string" where
  "fmt_08lx x = (let d = digits 16 (uint x) in replicate (8 - length d) (CHR ''0'') @ d)"

text \<open>An output file is the list of the texts written to it, one for each \<open>fprintf\<close>.\<close>

definition print_pindef_h :: "string \<Rightarrow> PINDEF \<Rightarrow> string" where
  "print_pindef_h PREFIX pd =
     ''extern const '' @ PREFIX @ ''_PINDEF '' @ PREFIX @ ''_'' @ signame pd @ [CHR '';'', CHR 0x0A]"

definition print_pindef_c :: "string \<Rightarrow> PINDEF \<Rightarrow> string" where
  "print_pindef_c PREFIX pd =
     ''const '' @ PREFIX @ ''_PINDEF '' @ PREFIX @ ''_'' @ signame pd @ '' = { '' @
     fmt_d (seq pd) @ '', '' @ fmt_d (pinnum pd) @ '', '' @ fmt_d (port pd) @ '', '' @
     fmt_d (bitno pd) @ '', '' @
     [CHR 0x22] @ altfunc1 pd @ [CHR 0x22] @ '', '' @
     [CHR 0x22] @ altfunc2 pd @ [CHR 0x22] @ '', '' @
     [CHR 0x22] @ altfunc3 pd @ [CHR 0x22] @ '', '' @
     [CHR 0x22] @ signame pd @ [CHR 0x22] @ '', '' @
     fmt_d (func pd) @ '', '' @ fmt_d (inout pd) @ '', '' @ fmt_d (mode pd) @ '', '' @
     fmt_d (odrain pd) @ '', '' @ fmt_d (def pd) @ '', '' @ fmt_d (active pd) @
     '' };'' @ [CHR 0x0A]"

text \<open>
  The line \<open>#define PREFIX_NAMEi_INIT (0x........)\<close> of a register, and the loop
  \<open>for(i=...;i<n;i++)\<close> that writes one for each index.
\<close>

definition define_INIT :: "string \<Rightarrow> string \<Rightarrow> nat \<Rightarrow> 'w::len word \<Rightarrow> string" where
  "define_INIT PREFIX name i x =
     ''#define '' @ PREFIX @ ''_'' @ name @ digits 10 (int i) @ ''_INIT (0x'' @ fmt_08lx x @
     '')'' @ [CHR 0x0A]"

function print_loop ::
  "string \<Rightarrow> string \<Rightarrow> 'w::len word list \<Rightarrow> nat \<Rightarrow> nat \<Rightarrow> string list" where
  "print_loop PREFIX name R i n =
    (if i < n then define_INIT PREFIX name i (R ! i) # print_loop PREFIX name R (Suc i) n
     else [])"
  by pat_completeness auto
termination
  by (relation "measure (\<lambda>(PREFIX, name, R, i, n). n - i)") auto

declare print_loop.simps [simp del]

definition print_PINSEL :: "string \<Rightarrow> 'w::len word list \<Rightarrow> string list" where
  "print_PINSEL PREFIX PINSEL = print_loop PREFIX ''PINSEL'' PINSEL 0 11 @ [[CHR 0x0A]]"

definition print_PINMODE :: "string \<Rightarrow> 'w::len word list \<Rightarrow> 'w word list \<Rightarrow> string list" where
  "print_PINMODE PREFIX PINMODE PINMODE_OD =
     print_loop PREFIX ''PINMODE'' PINMODE 0 10 @ [[CHR 0x0A]] @
     print_loop PREFIX ''PINMODE_OD'' PINMODE_OD 0 5 @ [[CHR 0x0A]]"

definition print_FIODIR :: "string \<Rightarrow> 'w::len word list \<Rightarrow> string list" where
  "print_FIODIR PREFIX FIODIR = print_loop PREFIX ''FIODIR'' FIODIR 0 5 @ [[CHR 0x0A]]"

definition print_FIOPIN :: "string \<Rightarrow> 'w::len word list \<Rightarrow> string list" where
  "print_FIOPIN PREFIX FIOPIN = print_loop PREFIX ''FIOPIN'' FIOPIN 0 5 @ [[CHR 0x0A]]"

definition print_FIOMASK :: "string \<Rightarrow> 'w::len word list \<Rightarrow> string list" where
  "print_FIOMASK PREFIX FIOMASK = print_loop PREFIX ''FIOMASK'' FIOMASK 0 5 @ [[CHR 0x0A]]"

section \<open>The main loop\<close>

text \<open>
  The state of the loop over the input lines: the counters, the pin table and the
  per-pin declarations written so far to the header file and to the C file. The pin
  table is the used part of the array \<open>pins\<close>, its elements below \<open>seqno\<close>, as a list:
  \<open>pins[seqno]=pindef\<close> appends to it. The counters are natural numbers: \<open>seqno\<close>
  stays below \<open>MAXPINS\<close> inside the loop, and \<open>lineno\<close> counts the lines read. The
  loop takes the lines that \<open>fgets\<close> returns as a list, the first line to read first.
\<close>

record state =
  seqno :: nat
  lineno :: nat
  pins :: "PINDEF list"
  fouth :: "string list"
  foutc :: "string list"

datatype loop_result = Finished state | Failed state nat string | Undefined_behaviour

fun main_loop :: "string \<Rightarrow> state \<Rightarrow> string list \<Rightarrow> loop_result" where
  "main_loop PREFIX st [] = Finished st"
| "main_loop PREFIX st (line # rest) =
    (let lp = cstr line in
     if take 3 lp = ''END'' then Finished st
     else
       let st1 = st\<lparr>lineno := lineno st + 1\<rparr> in
       case scan_fields lp 0 0 line_init of
         Fatal i field \<Rightarrow> Failed st1 i field
       | Undefined \<Rightarrow> Undefined_behaviour
       | Scanned v \<Rightarrow>
           if pinnum v = 0 then main_loop PREFIX st1 rest
           else if length (signame v) = 0 then main_loop PREFIX st1 rest
           else
             let pd = \<lparr>seq = of_nat (seqno st1), pinnum = pinnum v, port = port v,
                        bitno = bitno v,
                        altfunc1 = strncpy (altfunc1 v) MAXCHARS,
                        altfunc2 = strncpy (altfunc2 v) MAXCHARS,
                        altfunc3 = strncpy (altfunc3 v) MAXCHARS,
                        signame = strncpy (signame v) MAXCHARS,
                        func = func v, inout = inout v, mode = mode v,
                        odrain = odrain v, def = def v, active = active v\<rparr>;
                 st2 = st1\<lparr>fouth := fouth st1 @ [print_pindef_h PREFIX pd],
                           foutc := foutc st1 @ [print_pindef_c PREFIX pd],
                           pins := pins st1 @ [pd],
                           seqno := seqno st1 + 1\<rparr>
             in if seqno st2 \<ge> MAXPINS then Finished st2
                else main_loop PREFIX st2 rest)"

section \<open>The program\<close>

text \<open>The lines that successive calls of \<open>fgets(line, MAXCHARS, fin)\<close> return.\<close>

function read_lines :: "string \<Rightarrow> string list" where
  "read_lines f =
    (case fgets MAXCHARS f of None \<Rightarrow> [] | Some (l, r) \<Rightarrow> l # read_lines r)"
  by pat_completeness auto
termination
proof (relation "measure length")
  show "wf (measure length)" by simp
next
  fix f :: string and x2 l r
  assume a: "fgets MAXCHARS f = Some x2" "(l, r) = x2"
  have le: "length (snd (fgets_chars n cs)) \<le> length cs" for n cs
    by (induction n cs rule: fgets_chars.induct) (auto split: prod.splits)
  from a obtain c cs where f: "f = c # cs" and lr: "(l, r) = fgets_chars 255 (c # cs)"
    by (cases f) (auto simp: fgets_def MAXCHARS_def split: if_splits)
  have "length r \<le> length cs"
  proof (cases "c = CHR 0x0A")
    case True
    with lr show ?thesis by (simp add: numeral_eq_Suc)
  next
    case False
    with lr have "r = snd (fgets_chars 254 cs)"
      by (simp add: numeral_eq_Suc split: prod.splits)
    with le show ?thesis by simp
  qed
  with f show "(r, f) \<in> measure length" by simp
qed

declare read_lines.simps [simp del]

text \<open>
  The register images, and the five passes in the order of main, each on the images
  as main initialises them (all zero).
\<close>

record 'a registers =
  PINSEL_image :: "'a list"
  PINMODE_image :: "'a list"
  PINMODE_OD_image :: "'a list"
  FIODIR_image :: "'a list"
  FIOPIN_image :: "'a list"
  FIOMASK_image :: "'a list"

definition calc_all :: "PINDEF list \<Rightarrow> ('w::len word) registers option" where
  "calc_all table =
    (case calc_PINSEL table (replicate 11 0) of None \<Rightarrow> None | Some sel \<Rightarrow>
     case calc_PINMODE table (replicate 11 0, replicate 5 0) of None \<Rightarrow> None
     | Some (md, od) \<Rightarrow>
     case calc_FIODIR table (replicate 5 0) of None \<Rightarrow> None | Some dir \<Rightarrow>
     case calc_FIOPIN table (replicate 5 0) of None \<Rightarrow> None | Some pin \<Rightarrow>
     case calc_FIOMASK table of None \<Rightarrow> None | Some msk \<Rightarrow>
       Some \<lparr>PINSEL_image = sel, PINMODE_image = md, PINMODE_OD_image = od,
             FIODIR_image = dir, FIOPIN_image = pin, FIOMASK_image = msk\<rparr>)"

definition print_all :: "string \<Rightarrow> ('w::len word) registers \<Rightarrow> string list" where
  "print_all PREFIX R =
     print_PINSEL PREFIX (PINSEL_image R) @
     print_PINMODE PREFIX (PINMODE_image R) (PINMODE_OD_image R) @
     print_FIODIR PREFIX (FIODIR_image R) @
     print_FIOPIN PREFIX (FIOPIN_image R) @
     print_FIOMASK PREFIX (FIOMASK_image R)"

text \<open>
  A run of the program on the text of the input file, from the first \<open>fgets\<close> on:
  the exit code, the messages written to \<open>stderr\<close>, the pin table, the per-pin
  declarations of the two output files and the register blocks of the header file.
  The banners, the pin array, the bit macros and the copy of the input file are
  left out. \<open>None\<close> is a run with undefined behaviour.
\<close>

record 'a run =
  exit_code :: nat
  stderr :: "string list"
  table :: "PINDEF list"
  decls_h :: "string list"
  decls_c :: "string list"
  images :: "'a registers option"
  defines_h :: "string list"

definition main :: "string \<Rightarrow> string \<Rightarrow> ('w::len word) run option" where
  "main PREFIX file =
    (case main_loop PREFIX \<lparr>seqno = 0, lineno = 1, pins = [], fouth = [], foutc = []\<rparr>
            (drop 1 (read_lines file)) of
       Undefined_behaviour \<Rightarrow> None
     | Failed st i field \<Rightarrow>
         Some \<lparr>exit_code = 99,
               stderr = [''Error: line '' @ digits 10 (int (lineno st)) @ '', Field '' @
                         digits 10 (int i) @ '', String '' @ field @ [CHR 0x0A]],
               table = pins st, decls_h = fouth st, decls_c = foutc st,
               images = None, defines_h = []\<rparr>
     | Finished st \<Rightarrow>
         (case calc_all (pins st) of
            None \<Rightarrow> None
          | Some R \<Rightarrow>
              Some \<lparr>exit_code = 0,
                    stderr = [''Processed '' @ digits 10 (int (seqno st)) @ '' entries in '' @
                              digits 10 (int (lineno st)) @ '' lines'' @ [CHR 0x0A]],
                    table = pins st, decls_h = fouth st, decls_c = foutc st,
                    images = Some R, defines_h = print_all PREFIX R\<rparr>))"

section \<open>Sample input\<close>

text \<open>
  The header row and the two sample rows of the comment at the top of mkpins.c, each
  with its line terminator, and the pin table entries that the program makes of the
  two rows.
\<close>

definition sample_header :: string where
  "sample_header = [CHR 0x22] @ ''ITEM'' @ [CHR 0x22] @ '','' @ [CHR 0x22] @ ''P176x'' @
     [CHR 0x22] @ '','' @ [CHR 0x22] @ ''PORT'' @ [CHR 0x22] @ '','' @ [CHR 0x22] @ ''BIT'' @
     [CHR 0x22] @ '','' @ [CHR 0x22] @ ''FUNC1'' @ [CHR 0x22] @ '','' @ [CHR 0x22] @
     ''FUNC2'' @ [CHR 0x22] @ '','' @ [CHR 0x22] @ ''FUNC3'' @ [CHR 0x22] @ '','' @
     [CHR 0x22] @ ''SIGNAME'' @ [CHR 0x22] @ '','' @ [CHR 0x22] @ ''FUNC'' @ [CHR 0x22] @
     '','' @ [CHR 0x22] @ ''IN/OUT'' @ [CHR 0x22] @ '','' @ [CHR 0x22] @ ''MODE'' @
     [CHR 0x22] @ '','' @ [CHR 0x22] @ ''OD'' @ [CHR 0x22] @ '','' @ [CHR 0x22] @ ''DEF'' @
     [CHR 0x22] @ '','' @ [CHR 0x22] @ ''ACT'' @ [CHR 0x22] @ [CHR 0x0A]"

definition sample_row1 :: string where
  "sample_row1 = ''1,46,0,0,'' @ [CHR 0x22] @ ''RD1'' @ [CHR 0x22] @ '','' @ [CHR 0x22] @
     ''TXD3'' @ [CHR 0x22] @ '','' @ [CHR 0x22] @ ''SDA1'' @ [CHR 0x22] @ '','' @
     [CHR 0x22] @ ''GSM_TX'' @ [CHR 0x22] @ '',2,0,,,,'' @ [CHR 0x0A]"

definition sample_row2 :: string where
  "sample_row2 = ''2,47,0,1,'' @ [CHR 0x22] @ ''TD1'' @ [CHR 0x22] @ '','' @ [CHR 0x22] @
     ''RXD3'' @ [CHR 0x22] @ '','' @ [CHR 0x22] @ ''SCL1'' @ [CHR 0x22] @ '','' @
     [CHR 0x22] @ ''GSM_RX'' @ [CHR 0x22] @ '',2,1,,,,'' @ [CHR 0x0A]"

definition GSM_TX :: PINDEF where
  "GSM_TX = \<lparr>seq = 0, pinnum = 46, port = 0, bitno = 0,
     altfunc1 = ''RD1'', altfunc2 = ''TXD3'', altfunc3 = ''SDA1'', signame = ''GSM_TX'',
     func = 2, inout = 0, mode = 0, odrain = 0, def = 0, active = 1\<rparr>"

definition GSM_RX :: PINDEF where
  "GSM_RX = \<lparr>seq = 1, pinnum = 47, port = 0, bitno = 1,
     altfunc1 = ''TD1'', altfunc2 = ''RXD3'', altfunc3 = ''SCL1'', signame = ''GSM_RX'',
     func = 2, inout = 1, mode = 0, odrain = 0, def = 0, active = 1\<rparr>"

section \<open>Normal forms of the accumulator steps\<close>

text \<open>
  Notions for the proofs about the accumulators, not functions of the program. Every
  step of an accumulator replaces one element \<open>r\<close> of one array by \<open>(r AND c) OR v\<close>,
  when the index and the shift count are in range.
\<close>

definition upd :: "nat \<Rightarrow> 'w::len word \<Rightarrow> 'w word \<Rightarrow> 'w word list \<Rightarrow> 'w word list" where
  "upd i c v R = R[i := (R ! i AND c) OR v]"

definition nf ::
  "(nat \<Rightarrow> bool) \<Rightarrow> nat \<Rightarrow> 'w::len word \<Rightarrow> 'w word \<Rightarrow> 'w word list \<Rightarrow> 'w word list option" where
  "nf ok i c v R = (if ok (length R) then Some (upd i c v R) else None)"

definition both ::
  "('a \<Rightarrow> 'a option) \<Rightarrow> ('b \<Rightarrow> 'b option) \<Rightarrow> 'a \<times> 'b \<Rightarrow> ('a \<times> 'b) option" where
  "both a b S = (case a (fst S) of None \<Rightarrow> None
                 | Some x \<Rightarrow> (case b (snd S) of None \<Rightarrow> None | Some y \<Rightarrow> Some (x, y)))"

definition lift :: "('p \<Rightarrow> 's \<Rightarrow> 's option) \<Rightarrow> 'p \<Rightarrow> 's option \<Rightarrow> 's option" where
  "lift step p s = Option.bind s (step p)"

text \<open>A step on one bit that sets it, clears it or leaves it; a step on a 2-bit field.\<close>

definition bit_step ::
  "bool option \<Rightarrow> int \<Rightarrow> int \<Rightarrow> 'w::len word list \<Rightarrow> 'w word list option" where
  "bit_step a prt b R = (case a of None \<Rightarrow> Some R | Some on \<Rightarrow> port_bit on prt b R)"

definition field_step :: "cint \<Rightarrow> int \<times> int \<Rightarrow> 'w::len word list \<Rightarrow> 'w word list option" where
  "field_step x rb R =
    (case (elem R (fst rb), shl 0x03 (snd rb), shl x (snd rb)) of
       (Some r, Some m, Some f) \<Rightarrow> Some (R[nat (fst rb) := (r AND ulong (NOT m)) OR ulong f])
     | _ \<Rightarrow> None)"

text \<open>
  The invariant of the main loop, for the proofs: \<open>seqno\<close> is the size of the pin
  table, it is at most \<open>MAXPINS\<close>, and every entry holds its position as \<open>seq\<close>.
\<close>

definition table_ok :: "state \<Rightarrow> bool" where
  "table_ok st = (seqno st = length (pins st) \<and> seqno st \<le> MAXPINS \<and>
     map seq (pins st) = map of_nat [0..<length (pins st)])"

text \<open>
  The update of every element \<open>r\<close> of an array, at the index \<open>j\<close>, by
  \<open>(r AND C j) OR V j\<close>: the form of a whole run of an accumulator.
\<close>

definition aff ::
  "(nat \<Rightarrow> 'w::len word) \<Rightarrow> (nat \<Rightarrow> 'w word) \<Rightarrow> 'w word list \<Rightarrow> 'w word list" where
  "aff C V R = map (\<lambda>j. (R ! j AND C j) OR V j) [0..<length R]"

text \<open>
  The local variables of main after the fields before the field \<open>i\<close> of the line
  \<open>lp\<close>, when each of these fields lets the loop go on: an empty field leaves them
  as they are.
\<close>

fun locals_after :: "string \<Rightarrow> nat \<Rightarrow> PINDEF" where
  "locals_after lp 0 = line_init"
| "locals_after lp (Suc i) =
     (if field_len lp i = 0 then locals_after lp i
      else (case parse_field i (field_text lp i) (locals_after lp i) of
              Next v \<Rightarrow> v | _ \<Rightarrow> locals_after lp i))"

section \<open>Bit-level facts\<close>

lemma bit_ulong_iff:
  "bit (ulong x :: 'w::len word) n \<longleftrightarrow> n < LENGTH('w) \<and> bit x (min 31 n)"
  by (simp add: ulong_def bit_simps)

lemma two_bits:
  assumes "0 \<le> sint (x::cint)" "sint x \<le> 3" "bit x j"
  shows "j < 2"
proof -
  have "x = word_of_int (sint x)" by simp
  moreover from assms(1,2) have "sint x = 0 \<or> sint x = 1 \<or> sint x = 2 \<or> sint x = 3" by arith
  ultimately have "x = 0 \<or> x = 1 \<or> x = 2 \<or> x = 3" by (metis of_int_0 of_int_1 of_int_numeral)
  then have "take_bit 2 x = x" by auto
  with assms(3) show ?thesis by (metis bit_take_bit_iff)
qed

lemma bit_three: "bit (3::cint) j \<longleftrightarrow> j < 2"
proof -
  have e: "mask 2 = (3::cint)" by (simp add: mask_eq_exp_minus_1)
  have "bit (mask 2 :: cint) j \<longleftrightarrow> j < 2" by (auto simp: bit_simps)
  then show ?thesis unfolding e .
qed

lemma field_disjoint:
  assumes "0 \<le> sint (x::cint)" "sint x \<le> 3" "even sp" "even sq" "sp \<noteq> sq" 
  shows "ulong (push_bit sp x) AND ulong (NOT (push_bit sq 3)) = (ulong (push_bit sp x) :: 'w::len word)"
proof (rule bit_eqI)
  fix n
  have "\<not> bit (push_bit sq (3::cint)) m" if "bit (push_bit sp x) m" for m
  proof -
    from that have *: "sp \<le> m" "bit x (m - sp)" by (auto simp: bit_simps)
    then have "m - sp < 2" using two_bits[OF assms(1,2)] by blast
    with * assms(3,4,5) have "m < sq \<or> sq + 2 \<le> m" 
      by presburger
    then show ?thesis unfolding bit_push_bit_iff bit_three by auto
  qed
  then show "bit (ulong (push_bit sp x) AND ulong (NOT (push_bit sq 3)) :: 'w word) n = bit (ulong (push_bit sp x) :: 'w word) n"
    by (auto simp: bit_simps bit_ulong_iff)
qed

lemma single_disjoint:
  assumes "bp \<noteq> bq"
  shows "ulong (push_bit bp 1) AND ulong (NOT (push_bit bq 1)) = (ulong (push_bit bp 1) :: 'w::len word)"
  using assms by (auto simp: bit_eq_iff bit_simps bit_ulong_iff)

subsection \<open>Commuting updates\<close>

lemma and_or_commute:
  fixes r :: "'w::len word"
  assumes "vp AND cq = vp" and "vq AND cp = vq"
  shows "((r AND cp OR vp) AND cq) OR vq = ((r AND cq OR vq) AND cp) OR vp"
proof (rule bit_eqI)
  fix n
  from assms(1) have a: "bit vp n \<Longrightarrow> bit cq n"
    by (metis bit_and_iff)
  from assms(2) have b: "bit vq n \<Longrightarrow> bit cp n"
    by (metis bit_and_iff)
  show "bit (((r AND cp OR vp) AND cq) OR vq) n = bit (((r AND cq OR vq) AND cp) OR vp) n"
    using a b by (auto simp: bit_simps)
qed

lemma upd_length [simp]: "length (upd i c v R) = length R"
  by (simp add: upd_def)

lemma upd_commute:
  assumes "i = j \<Longrightarrow> v AND c' = v \<and> v' AND c = v'"
  shows "upd j c' v' (upd i c v R) = upd i c v (upd j c' v' R)"
proof (cases "i = j")
  case True
  show ?thesis
  proof (cases "i < length R")
    case True
    with \<open>i = j\<close> assms show ?thesis
      by (simp add: upd_def and_or_commute)
  next
    case False
    with \<open>i = j\<close> show ?thesis by (simp add: upd_def list_update_beyond)
  qed
next
  case False
  then show ?thesis
    by (simp add: upd_def list_update_swap)
qed

lemma nf_commute:
  assumes "ok (length R) \<Longrightarrow> ok' (length R) \<Longrightarrow> i = j \<Longrightarrow> v AND c' = v \<and> v' AND c = v'"
  shows "Option.bind (nf ok i c v R) (nf ok' j c' v') = Option.bind (nf ok' j c' v' R) (nf ok i c v)"
  using assms by (auto simp: nf_def intro: upd_commute)

lemma fold_lift_perm:
  assumes "mset tbl' = mset tbl" and "distinct (map key tbl)"
    and "\<And>p q R. p \<in> set tbl \<Longrightarrow> q \<in> set tbl \<Longrightarrow> key p \<noteq> key q \<Longrightarrow>
           Option.bind (step p R) (step q) = Option.bind (step q R) (step p)"
  shows "fold (lift step) tbl' = fold (lift step) tbl"
proof (rule fold_multiset_equiv)
  show "mset tbl' = mset tbl" by fact
next
  fix x y assume "x \<in> set tbl'" "y \<in> set tbl'"
  with assms(1) have xy: "x \<in> set tbl" "y \<in> set tbl" by (metis mset_eq_setD)+
  show "lift step x \<circ> lift step y = lift step y \<circ> lift step x"
  proof (cases "x = y")
    case True then show ?thesis by simp
  next
    case False
    with xy assms(2) have k: "key x \<noteq> key y"
      by (auto simp: distinct_map inj_on_def)
    show ?thesis
    proof
      fix s show "(lift step x \<circ> lift step y) s = (lift step y \<circ> lift step x) s"
        using assms(3)[OF xy(2) xy(1)] k by (cases s) (auto simp: lift_def)
    qed
  qed
qed

subsection \<open>The steps in normal form\<close>

lemma bit_step_nf:
  "bit_step a prt b =
     nf (\<lambda>n. a = None \<or> (0 \<le> prt \<and> prt < int n \<and> 0 \<le> b \<and> b < 32))
        (case a of None \<Rightarrow> 0 | Some _ \<Rightarrow> nat prt)
        (case a of Some False \<Rightarrow> ulong (NOT (push_bit (nat b) 1)) | _ \<Rightarrow> - 1)
        (case a of Some True \<Rightarrow> ulong (push_bit (nat b) 1) | _ \<Rightarrow> 0)"
  by (rule ext)
    (auto simp: bit_step_def nf_def upd_def port_bit_def elem_def shl_def split: option.splits bool.splits)

lemma bit_step_commute:
  assumes "(prt, b) \<noteq> (prt', b')"
  shows "Option.bind (bit_step a prt b R) (bit_step a' prt' b') =
         Option.bind (bit_step a' prt' b' R) (bit_step a prt b)"
  unfolding bit_step_nf
proof (rule nf_commute, goal_cases)
  case 1
  show ?case
  proof (cases "a = None \<or> a' = None")
    case True
    then show ?thesis by (auto split: option.splits bool.splits)
  next
    case False
    with 1 have "prt = prt'" "0 \<le> b" "0 \<le> b'" by (auto split: option.splits)
    with assms have "nat b \<noteq> nat b'" by auto
    then show ?thesis
      using single_disjoint[of "nat b" "nat b'", where 'w='a] single_disjoint[of "nat b'" "nat b", where 'w='a]
      by (auto split: option.splits bool.splits)
  qed
qed

lemma field_step_nf:
  "field_step x (reg, bit2) =
     nf (\<lambda>n. 0 \<le> reg \<and> reg < int n \<and> 0 \<le> bit2 \<and> bit2 < 32) (nat reg)
        (ulong (NOT (push_bit (nat bit2) 3))) (ulong (push_bit (nat bit2) x))"
  by (rule ext) (auto simp: field_step_def nf_def upd_def elem_def shl_def split: option.splits)

lemma reg_bit2_inj:
  "PINSEL_reg_bit2 a b = PINSEL_reg_bit2 a' b' \<Longrightarrow> a = a' \<and> b = b'"
  by (auto simp: PINSEL_reg_bit2_def split: if_splits) presburger+

lemma reg_bit2_even: "even (snd (PINSEL_reg_bit2 a b))"
  by (simp add: PINSEL_reg_bit2_def)

lemma field_compat:
  assumes "0 \<le> sint x" "sint x \<le> 3" "0 \<le> sint x'" "sint x' \<le> 3"
    and "(a, b) \<noteq> (a', b')"
    and "PINSEL_reg_bit2 a b = (reg, s)" "PINSEL_reg_bit2 a' b' = (reg', s')"
    and "0 \<le> reg" "0 \<le> reg'" "0 \<le> s" "0 \<le> s'" "nat reg = nat reg'"
  shows "ulong (push_bit (nat s) x) AND ulong (NOT (push_bit (nat s') 3)) = (ulong (push_bit (nat s) x) :: 'w::len word) \<and>
         ulong (push_bit (nat s') x') AND ulong (NOT (push_bit (nat s) 3)) = (ulong (push_bit (nat s') x') :: 'w word)"
proof -
  from assms have "reg = reg'" by simp
  with assms(5,6,7) have "s \<noteq> s'" using reg_bit2_inj by (metis)
  with assms(10,11) have ne: "nat s \<noteq> nat s'" by simp
  from reg_bit2_even[of a b] assms(6,10) have e: "even (nat s)" by (simp add: even_nat_iff)
  from reg_bit2_even[of a' b'] assms(7,11) have e': "even (nat s')" by (simp add: even_nat_iff)
  from field_disjoint[OF assms(1,2) e e' ne] field_disjoint[OF assms(3,4) e' e ne[symmetric]]
  show ?thesis by blast
qed

lemma PINSEL_pin_step:
  "PINSEL_pin p = field_step (func p) (PINSEL_reg_bit2 (sint (port p)) (sint (bitno p)))"
  by (rule ext) (auto simp: PINSEL_pin_def field_step_def split: prod.splits option.splits)

lemma PINMODE_pin_step:
  "PINMODE_pin p =
     both (field_step (mode p) (PINSEL_reg_bit2 (sint (port p)) (sint (bitno p))))
          (bit_step (if odrain p = 1 then Some True else if odrain p = 0 then Some False else None)
             (sint (port p)) (sint (bitno p)))"
  by (rule ext)
    (auto simp: PINMODE_pin_def field_step_def both_def bit_step_def PINMODE_reg_bit2_def
      PINSEL_reg_bit2_def Let_def split: prod.splits option.splits)




lemma fold_lift_None: "fold (lift step) tbl None = None"
  by (induction tbl) (simp_all add: lift_def)

lemma calc_PINSEL_fold: "calc_PINSEL tbl R = fold (lift PINSEL_pin) tbl (Some R)"
  by (induction tbl arbitrary: R) (auto simp: lift_def fold_lift_None split: option.splits)

lemma calc_PINMODE_fold: "calc_PINMODE tbl S = fold (lift PINMODE_pin) tbl (Some S)"
  by (induction tbl arbitrary: S) (auto simp: lift_def fold_lift_None split: option.splits)




lemma key_sint:
  "(port p, bitno p) \<noteq> (port q, bitno q) \<Longrightarrow>
   (sint (port p), sint (bitno p)) \<noteq> (sint (port q), sint (bitno q))"
  by (auto dest: signed_word_eqI)

lemma field_step_commute:
  assumes "0 \<le> sint x" "sint x \<le> 3" "0 \<le> sint x'" "sint x' \<le> 3" and "(a, b) \<noteq> (a', b')"
  shows "Option.bind (field_step x (PINSEL_reg_bit2 a b) R) (field_step x' (PINSEL_reg_bit2 a' b')) =
         Option.bind (field_step x' (PINSEL_reg_bit2 a' b') R) (field_step x (PINSEL_reg_bit2 a b))"
proof -
  obtain reg s where p: "PINSEL_reg_bit2 a b = (reg, s)" by fastforce
  obtain reg' s' where q: "PINSEL_reg_bit2 a' b' = (reg', s')" by fastforce
  show ?thesis
    unfolding p q field_step_nf
    by (rule nf_commute) (use field_compat[OF assms p q] in blast)
qed

subsection \<open>Single bits\<close>

lemma port_bit_defined:
  "port_bit on prt b R = Some R' \<Longrightarrow> 0 \<le> prt \<and> prt < int (length R) \<and> 0 \<le> b \<and> b < 32"
  by (auto simp: port_bit_def elem_def shl_def split: option.splits if_splits)

lemma port_bit_other:
  fixes R :: "'w::len word list"
  assumes "port_bit on prt b R = Some R'" and "n < 32" and "k \<noteq> nat prt \<or> n \<noteq> nat b"
  shows "bit (R' ! k) n = bit (R ! k) n"
proof (cases "k = nat prt")
  case False
  with assms show ?thesis
    by (auto simp: port_bit_def split: option.splits)
next
  case True
  with assms have nb: "n \<noteq> nat b" by simp
  from assms(1) have d: "0 \<le> prt" "prt < int (length R)" "0 \<le> b" "b < 32"
    using port_bit_defined by blast+
  have m: "\<not> bit (push_bit (nat b) (1::cint)) n"
    using nb by (simp add: bit_simps)
  from assms(1) d True have R': "R' ! k = (if on then R ! k OR ulong (push_bit (nat b) 1)
        else R ! k AND ulong (NOT (push_bit (nat b) 1)))"
    by (auto simp: port_bit_def elem_def shl_def)
  show ?thesis
    using m \<open>n < 32\<close> by (auto simp: R' bit_simps bit_ulong_iff min_def dest: bit_imp_le_length)
qed

lemma port_bit_clear_le:
  fixes R :: "'w::len word list"
  assumes "port_bit False prt b R = Some R'" and "\<not> bit (R ! k) n"
  shows "\<not> bit (R' ! k) n"
proof (cases "k = nat prt")
  case False
  with assms show ?thesis
    by (auto simp: port_bit_def split: option.splits)
next
  case True
  from assms(1) have d: "0 \<le> prt" "prt < int (length R)" "0 \<le> b" "b < 32"
    using port_bit_defined by blast+
  from assms(1) d True have R': "R' ! k = R ! k AND ulong (NOT (push_bit (nat b) 1))"
    by (auto simp: port_bit_def elem_def shl_def)
  show ?thesis using assms(2) by (simp add: R' bit_simps)
qed

lemma FIODIR_pin_keeps_clear:
  fixes F :: "'w::len word list"
  assumes "FIODIR_pin q F = Some F'" and "\<not> bit (F ! k) n" and "n < 32"
    and "\<not> (sint (port q) = int k \<and> sint (bitno q) = int n \<and> inout q = OUT)"
  shows "\<not> bit (F' ! k) n"
proof -
  consider "inout q = IN" | "inout q = OUT" | "inout q \<noteq> IN" "inout q \<noteq> OUT" by blast
  then show ?thesis
  proof cases
    case 1
    with assms(1) have "port_bit False (sint (port q)) (sint (bitno q)) F = Some F'"
      by (simp add: FIODIR_pin_def IN_def OUT_def split: option.splits)
    then show ?thesis using assms(2) by (rule port_bit_clear_le)
  next
    case 2
    with assms(1) have pb: "port_bit True (sint (port q)) (sint (bitno q)) F = Some F'"
      by (simp add: FIODIR_pin_def IN_def OUT_def split: option.splits)
    from port_bit_defined[OF pb] assms(4) 2
    have "k \<noteq> nat (sint (port q)) \<or> n \<noteq> nat (sint (bitno q))" by auto
    from port_bit_other[OF pb \<open>n < 32\<close> this] assms(2) show ?thesis by simp
  next
    case 3
    with assms(1) have "F' = F" by (simp add: FIODIR_pin_def)
    with assms(2) show ?thesis by simp
  qed
qed

lemma calc_FIODIR_keeps_clear:
  fixes F :: "'w::len word list"
  assumes "calc_FIODIR tbl F = Some R" and "\<not> bit (F ! k) n" and "n < 32"
    and "\<forall>q\<in>set tbl. \<not> (sint (port q) = int k \<and> sint (bitno q) = int n \<and> inout q = OUT)"
  shows "\<not> bit (R ! k) n"
  using assms
proof (induction tbl arbitrary: F)
  case Nil
  then show ?case by simp
next
  case (Cons q tbl)
  from Cons.prems(1) obtain F' where s: "FIODIR_pin q F = Some F'"
    and r: "calc_FIODIR tbl F' = Some R"
    by (auto split: option.splits)
  have "\<not> bit (F' ! k) n"
    using FIODIR_pin_keeps_clear[OF s Cons.prems(2,3)] Cons.prems(4) by simp
  from Cons.IH[OF r this Cons.prems(3)] Cons.prems(4) show ?case by simp
qed

section \<open>Direction of a pin without a direction field\<close>

text \<open>
  C9. A direction field that does not scan leaves \<open>inout\<close> at its initial value
  \<open>NA\<close> (0xff). For a pin with that value the step of calc_FIODIR changes nothing.
  When the pin's port is in 0..4 and its bit in 0..31, and no pin of the table with
  the same port and bit is an output, the pin's bit is 0 in the direction image that
  calc_FIODIR computes from the zeroed array.
\<close>

theorem unset_direction_reads_input:
  fixes F R :: "'w::len word list"
  assumes "sscanf_d field = Unmatched"
    and "inout p = NA"
    and "p \<in> set tbl"
    and "calc_FIODIR tbl (replicate 5 0) = Some R"
    and "0 \<le> sint (port p)" and "sint (port p) < 5"
    and "0 \<le> sint (bitno p)" and "sint (bitno p) < 32"
    and "\<forall>q\<in>set tbl. port q = port p \<and> bitno q = bitno p \<longrightarrow> inout q \<noteq> OUT"
  shows "parse_field 9 field v = Next v \<and> inout line_init = NA \<and>
         FIODIR_pin p F = Some F \<and>
         \<not> bit (R ! nat (sint (port p))) (nat (sint (bitno p)))"
proof -
  have a: "parse_field 9 field v = Next v"
    using assms(1) by (simp add: parse_field_def optional_def)
  have b: "inout line_init = NA" by (simp add: line_init_def)
  have c: "FIODIR_pin p F = Some F"
    using assms(2) by (simp add: FIODIR_pin_def NA_def IN_def OUT_def)
  have z: "\<not> bit ((replicate 5 (0::'w word)) ! nat (sint (port p))) (nat (sint (bitno p)))"
    using assms(5,6) by simp
  have n: "nat (sint (bitno p)) < 32" using assms(7,8) by simp
  have h: "\<forall>q\<in>set tbl. \<not> (sint (port q) = int (nat (sint (port p))) \<and>
      sint (bitno q) = int (nat (sint (bitno p))) \<and> inout q = OUT)"
    using assms(5,7,9) by (auto dest: signed_word_eqI)
  from calc_FIODIR_keeps_clear[OF assms(4) z n h] a b c show ?thesis by blast
qed

text \<open>The second sample row without its direction, beside the first, an output.\<close>

theorem unset_direction_reads_input_witness:
  "sscanf_d ''x'' = Unmatched \<and> inout (GSM_RX\<lparr>inout := NA\<rparr>) = NA \<and>
   GSM_RX\<lparr>inout := NA\<rparr> \<in> set [GSM_TX, GSM_RX\<lparr>inout := NA\<rparr>] \<and>
   calc_FIODIR [GSM_TX, GSM_RX\<lparr>inout := NA\<rparr>] (replicate 5 0) = Some [1, 0, 0, 0, 0 :: 32 word] \<and>
   parse_field 9 ''x'' line_init = Next line_init \<and>
   FIODIR_pin (GSM_RX\<lparr>inout := NA\<rparr>) [1, 0, 0, 0, 0 :: 32 word] = Some [1, 0, 0, 0, 0] \<and>
   \<not> bit ([1, 0, 0, 0, 0 :: 32 word] ! nat (sint (port (GSM_RX\<lparr>inout := NA\<rparr>))))
        (nat (sint (bitno (GSM_RX\<lparr>inout := NA\<rparr>))))"
proof -
  have h1: "sscanf_d ''x'' = Unmatched" by code_simp
  have h2: "inout (GSM_RX\<lparr>inout := NA\<rparr>) = NA" by simp
  have h3: "GSM_RX\<lparr>inout := NA\<rparr> \<in> set [GSM_TX, GSM_RX\<lparr>inout := NA\<rparr>]" by simp
  have h4: "calc_FIODIR [GSM_TX, GSM_RX\<lparr>inout := NA\<rparr>] (replicate 5 0) =
      Some [1, 0, 0, 0, 0 :: 32 word]"
    by code_simp
  have h5: "0 \<le> sint (port (GSM_RX\<lparr>inout := NA\<rparr>))" "sint (port (GSM_RX\<lparr>inout := NA\<rparr>)) < 5"
    "0 \<le> sint (bitno (GSM_RX\<lparr>inout := NA\<rparr>))" "sint (bitno (GSM_RX\<lparr>inout := NA\<rparr>)) < 32"
    by (simp_all add: GSM_RX_def)
  have h6: "\<forall>q\<in>set [GSM_TX, GSM_RX\<lparr>inout := NA\<rparr>].
      port q = port (GSM_RX\<lparr>inout := NA\<rparr>) \<and> bitno q = bitno (GSM_RX\<lparr>inout := NA\<rparr>) \<longrightarrow>
      inout q \<noteq> OUT"
    by (simp add: GSM_RX_def GSM_TX_def NA_def OUT_def)
  from unset_direction_reads_input[OF h1 h2 h3 h4 h5 h6, of line_init "[1, 0, 0, 0, 0]"]
    h1 h2 h3 h4
  show ?thesis by blast
qed

subsection \<open>A whole run of an accumulator\<close>

lemma aff_length [simp]: "length (aff C V R) = length R"
  by (simp add: aff_def)








lemma fold_upd_length [simp]: "length (fold (\<lambda>p. upd (i p) (c p) (v p)) tbl R) = length R"
  by (induction tbl arbitrary: R) simp_all

lemma lift_Some: "lift step p (Some s) = step p s"
  by (simp add: lift_def)



lemma fold_both:
  "fold (lift (\<lambda>p. both (a p) (b p))) tbl (Some (M, D)) =
   both (\<lambda>M. fold (lift a) tbl (Some M)) (\<lambda>D. fold (lift b) tbl (Some D)) (M, D)"
proof (induction tbl arbitrary: M D)
  case Nil
  show ?case by (simp add: both_def)
next
  case (Cons p ps)
  show ?case
  proof (cases "a p M")
    case None
    then show ?thesis by (simp add: lift_Some both_def fold_lift_None)
  next
    case (Some M1)
    note M1 = this
    show ?thesis
    proof (cases "b p D")
      case None
      with M1 show ?thesis by (simp add: lift_Some both_def fold_lift_None split: option.splits)
    next
      case (Some D1)
      with M1 Cons.IH[of M1 D1] show ?thesis by (simp add: lift_Some both_def split: option.splits)
    qed
  qed
qed





lemma bit_fold_perm:
  assumes "mset tbl' = mset tbl" and "distinct (map (\<lambda>p. (port p, bitno p)) tbl)"
  shows "fold (lift (\<lambda>p. bit_step (a p) (sint (port p)) (sint (bitno p)))) tbl' =
         fold (lift (\<lambda>p. bit_step (a p) (sint (port p)) (sint (bitno p)))) tbl"
  by (rule fold_lift_perm[OF assms]) (rule bit_step_commute[OF key_sint])

lemma field_fold_perm:
  fixes tbl :: "PINDEF list"
  assumes "mset tbl' = mset tbl" and "distinct (map (\<lambda>p. (port p, bitno p)) tbl)"
    and "\<forall>p\<in>set tbl. 0 \<le> sint (x p) \<and> sint (x p) \<le> 3"
  shows "fold (lift (\<lambda>p. field_step (x p) (PINSEL_reg_bit2 (sint (port p)) (sint (bitno p))))) tbl' =
         (fold (lift (\<lambda>p. field_step (x p) (PINSEL_reg_bit2 (sint (port p)) (sint (bitno p))))) tbl
            :: 'w::len word list option \<Rightarrow> 'w word list option)"
proof (rule fold_lift_perm[OF assms(1,2)])
  fix p q and R :: "'w word list"
  assume "p \<in> set tbl" "q \<in> set tbl" "(port p, bitno p) \<noteq> (port q, bitno q)"
  with assms(3) show "Option.bind (field_step (x p) (PINSEL_reg_bit2 (sint (port p)) (sint (bitno p))) R)
          (field_step (x q) (PINSEL_reg_bit2 (sint (port q)) (sint (bitno q)))) =
        Option.bind (field_step (x q) (PINSEL_reg_bit2 (sint (port q)) (sint (bitno q))) R)
          (field_step (x p) (PINSEL_reg_bit2 (sint (port p)) (sint (bitno p))))"
    by (intro field_step_commute key_sint) auto
qed

lemma calc_PINSEL_steps:
  "calc_PINSEL tbl R =
   fold (lift (\<lambda>p. field_step (func p) (PINSEL_reg_bit2 (sint (port p)) (sint (bitno p))))) tbl (Some R)"
  by (simp add: calc_PINSEL_fold PINSEL_pin_step[abs_def])

lemma calc_PINMODE_steps:
  "calc_PINMODE tbl (M, D) =
   both (\<lambda>M. fold (lift (\<lambda>p. field_step (mode p) (PINSEL_reg_bit2 (sint (port p)) (sint (bitno p)))))
                tbl (Some M))
        (\<lambda>D. fold (lift (\<lambda>p. bit_step (if odrain p = 1 then Some True
                                       else if odrain p = 0 then Some False else None)
                                (sint (port p)) (sint (bitno p))))
                tbl (Some D))
        (M, D)"
  by (simp add: calc_PINMODE_fold PINMODE_pin_step[abs_def] fold_both)











section \<open>Order of the pin table\<close>




text \<open>
  Outside the range of the ports 0..4 and the bits 0..31 an accumulator shifts by 32
  or more or indexes beyond its array, which C leaves undefined: no image is claimed
  there.
\<close>

lemma out_of_range_undefined:
  "calc_PINSEL [GSM_TX\<lparr>bitno := 32\<rparr>] (replicate 11 (0 :: 32 word)) = None \<and>
   calc_FIODIR [GSM_TX\<lparr>bitno := 32\<rparr>] (replicate 5 (0 :: 32 word)) = None \<and>
   calc_FIODIR [GSM_TX\<lparr>port := 5\<rparr>] (replicate 5 (0 :: 32 word)) = None \<and>
   calc_FIODIR [GSM_TX\<lparr>bitno := - 1\<rparr>] (replicate 5 (0 :: 32 word)) = None"
  by code_simp

section \<open>Addressing rule at the bit-16 boundary\<close>

lemma PINSEL_pin_length: "PINSEL_pin p R = Some R' \<Longrightarrow> length R' = length R"
  by (auto simp: PINSEL_pin_def split: prod.splits option.splits)

lemma calc_PINSEL_length: "calc_PINSEL tbl R = Some R' \<Longrightarrow> length R' = length R"
  by (induction tbl arbitrary: R) (auto split: option.splits dest: PINSEL_pin_length)

lemma port_bit_length: "port_bit on prt b R = Some R' \<Longrightarrow> length R' = length R"
  by (auto simp: port_bit_def split: option.splits)

lemma PINMODE_pin_length:
  "PINMODE_pin p (M, D) = Some (M', D') \<Longrightarrow> length M' = length M \<and> length D' = length D"
  by (auto simp: PINMODE_pin_def Let_def split: prod.splits option.splits if_splits
      dest: port_bit_length)

lemma calc_PINMODE_length:
  "calc_PINMODE tbl (M, D) = Some (M', D') \<Longrightarrow> length M' = length M \<and> length D' = length D"
proof (induction tbl arbitrary: M D)
  case Nil
  then show ?case by simp
next
  case (Cons p tbl)
  from Cons.prems obtain M1 D1 where s: "PINMODE_pin p (M, D) = Some (M1, D1)"
    and r: "calc_PINMODE tbl (M1, D1) = Some (M', D')"
    by (auto split: option.splits)
  from PINMODE_pin_length[OF s] Cons.IH[OF r] show ?case by simp
qed

lemma calc_PINSEL_append:
  "calc_PINSEL (xs @ ys) R = Option.bind (calc_PINSEL xs R) (calc_PINSEL ys)"
  by (induction xs arbitrary: R) (auto split: option.splits)

lemma calc_PINMODE_append:
  "calc_PINMODE (xs @ ys) S = Option.bind (calc_PINMODE xs S) (calc_PINMODE ys)"
  by (induction xs arbitrary: S) (auto split: option.splits)

lemma calc_PINSEL_last:
  "calc_PINSEL (tbl @ [p]) R = Option.bind (calc_PINSEL tbl R) (PINSEL_pin p)"
  by (cases "calc_PINSEL tbl R") (auto simp: calc_PINSEL_append split: option.splits)

lemma calc_PINMODE_last:
  "calc_PINMODE (tbl @ [p]) S = Option.bind (calc_PINMODE tbl S) (PINMODE_pin p)"
  by (cases "calc_PINMODE tbl S") (auto simp: calc_PINMODE_append split: option.splits)

lemma PINSEL_pin_15:
  "length R = 11 \<Longrightarrow> PINSEL_pin (p\<lparr>port := 0, bitno := 15\<rparr>) R =
     Some (R[0 := (R ! 0 AND ulong (NOT (push_bit 30 (3::cint)))) OR ulong (push_bit 30 (func p))])"
  by (simp add: PINSEL_pin_def PINSEL_reg_bit2_def elem_def shl_def)

lemma PINSEL_pin_16:
  "length R = 11 \<Longrightarrow> PINSEL_pin (p\<lparr>port := 0, bitno := 16\<rparr>) R =
     Some (R[1 := (R ! 1 AND ulong (NOT (3::cint))) OR ulong (func p)])"
  by (simp add: PINSEL_pin_def PINSEL_reg_bit2_def elem_def shl_def)

lemma PINMODE_pin_15:
  "length M = 11 \<Longrightarrow> length D = 5 \<Longrightarrow>
   map_option fst (PINMODE_pin (p\<lparr>port := 0, bitno := 15\<rparr>) (M, D)) =
     Some (M[0 := (M ! 0 AND ulong (NOT (push_bit 30 (3::cint)))) OR ulong (push_bit 30 (mode p))])"
  by (cases M) (auto simp: PINMODE_pin_def PINMODE_reg_bit2_def elem_def shl_def port_bit_def Let_def)

lemma PINMODE_pin_16:
  "length M = 11 \<Longrightarrow> length D = 5 \<Longrightarrow>
   map_option fst (PINMODE_pin (p\<lparr>port := 0, bitno := 16\<rparr>) (M, D)) =
     Some (M[1 := (M ! 1 AND ulong (NOT (3::cint))) OR ulong (mode p)])"
  by (auto simp: PINMODE_pin_def PINMODE_reg_bit2_def elem_def shl_def port_bit_def Let_def)

lemma calc_PINSEL_then_pin:
  assumes "\<And>R. length R = 11 \<Longrightarrow> PINSEL_pin q R = Some (f R)"
  shows "calc_PINSEL (tbl @ [q]) (replicate 11 (0::'w::len word)) =
         map_option f (calc_PINSEL tbl (replicate 11 0))"
proof (cases "calc_PINSEL tbl (replicate 11 (0::'w word))")
  case None
  then show ?thesis by (simp add: calc_PINSEL_last)
next
  case (Some R)
  from calc_PINSEL_length[OF Some] have "length R = 11" by simp
  from assms[OF this] Some show ?thesis by (simp add: calc_PINSEL_last)
qed

lemma calc_PINMODE_then_pin:
  assumes "\<And>M D. length M = 11 \<Longrightarrow> length D = 5 \<Longrightarrow>
             map_option fst (PINMODE_pin q (M, D)) = Some (f M)"
  shows "map_option fst (calc_PINMODE (tbl @ [q]) (replicate 11 (0::'w::len word), replicate 5 0)) =
         map_option (f \<circ> fst) (calc_PINMODE tbl (replicate 11 0, replicate 5 0))"
proof (cases "calc_PINMODE tbl (replicate 11 (0::'w word), replicate 5 0)")
  case None
  then show ?thesis by (simp add: calc_PINMODE_last)
next
  case (Some S)
  obtain M D where S: "S = (M, D)" by fastforce
  from calc_PINMODE_length[OF Some[unfolded S]] have "length M = 11" "length D = 5" by simp_all
  from assms[OF this] Some S show ?thesis
    by (simp add: calc_PINMODE_last)
qed

lemma PINSEL_pin_at_15:
  "length R = 11 \<Longrightarrow> port q = 0 \<Longrightarrow> bitno q = 15 \<Longrightarrow> PINSEL_pin q R =
     Some (R[0 := (R ! 0 AND ulong (NOT (push_bit 30 (3::cint)))) OR ulong (push_bit 30 (func q))])"
  by (simp add: PINSEL_pin_def PINSEL_reg_bit2_def elem_def shl_def)

lemma PINSEL_pin_at_16:
  "length R = 11 \<Longrightarrow> port q = 0 \<Longrightarrow> bitno q = 16 \<Longrightarrow> PINSEL_pin q R =
     Some (R[1 := (R ! 1 AND ulong (NOT (push_bit 0 (3::cint)))) OR ulong (push_bit 0 (func q))])"
  by (simp add: PINSEL_pin_def PINSEL_reg_bit2_def elem_def shl_def)

lemma PINMODE_pin_at_15:
  "length M = 11 \<Longrightarrow> length D = 5 \<Longrightarrow> port q = 0 \<Longrightarrow> bitno q = 15 \<Longrightarrow>
   map_option fst (PINMODE_pin q (M, D)) =
     Some (M[0 := (M ! 0 AND ulong (NOT (push_bit 30 (3::cint)))) OR ulong (push_bit 30 (mode q))])"
  by (cases M) (auto simp: PINMODE_pin_def PINMODE_reg_bit2_def elem_def shl_def port_bit_def Let_def)

lemma PINMODE_pin_at_16:
  "length M = 11 \<Longrightarrow> length D = 5 \<Longrightarrow> port q = 0 \<Longrightarrow> bitno q = 16 \<Longrightarrow>
   map_option fst (PINMODE_pin q (M, D)) =
     Some (M[1 := (M ! 1 AND ulong (NOT (push_bit 0 (3::cint)))) OR ulong (push_bit 0 (mode q))])"
  by (cases M) (auto simp: PINMODE_pin_def PINMODE_reg_bit2_def elem_def shl_def port_bit_def Let_def)

text \<open>
  C3. Both calc_PINSEL and calc_PINMODE place a pin with port 0 and bit 15 in
  sub-register 0 at shift 30, and a pin with port 0 and bit 16 in sub-register 1 at
  shift 0. The two functions compute the same sub-register and shift for every port
  and bit. On zeroed images, one step of either function puts the value of the pin
  at that place. After any table, calc_PINSEL replaces the two bits at that place of
  the image that the table has left by \<open>func\<close>, and calc_PINMODE by \<open>mode\<close>, and
  changes nothing else of the image. For a pin \<open>q\<close> with port 0 and bit 15 or 16 at
  any position of a table \<open>tb\<close> with pairwise distinct (port, bit) pairs, the image
  of calc_PINSEL is the image of the other pins with \<open>func q\<close> at that place, when
  every \<open>func\<close> of the table lies in 0..3, and likewise the image of calc_PINMODE
  with \<open>mode q\<close>, when every \<open>mode\<close> lies in 0..3. For the two sample rows moved to
  the bits 15 and 16, the images are 0x80000000 in PINSEL0 and 1 in PINSEL1, and
  with the modes 3 and 2, 0xC0000000 in PINMODE0 and 2 in PINMODE1.
\<close>

theorem addressing_boundary:
  "PINSEL_reg_bit2 0 15 = (0, 30) \<and> PINMODE_reg_bit2 0 15 = (0, 30) \<and>
   PINSEL_reg_bit2 0 16 = (1, 0) \<and> PINMODE_reg_bit2 0 16 = (1, 0) \<and>
   PINSEL_reg_bit2 = PINMODE_reg_bit2 \<and>
   PINSEL_pin (p\<lparr>port := 0, bitno := 15\<rparr>) (replicate 11 (0::'w::len word)) =
     Some ((replicate 11 0)[0 := ulong (push_bit 30 (func p))]) \<and>
   PINSEL_pin (p\<lparr>port := 0, bitno := 16\<rparr>) (replicate 11 (0::'w word)) =
     Some ((replicate 11 0)[1 := ulong (func p)]) \<and>
   map_option fst (PINMODE_pin (p\<lparr>port := 0, bitno := 15\<rparr>)
       (replicate 11 (0::'w word), replicate 5 0)) =
     Some ((replicate 11 0)[0 := ulong (push_bit 30 (mode p))]) \<and>
   map_option fst (PINMODE_pin (p\<lparr>port := 0, bitno := 16\<rparr>)
       (replicate 11 (0::'w word), replicate 5 0)) =
     Some ((replicate 11 0)[1 := ulong (mode p)]) \<and>
   calc_PINSEL (tbl @ [p\<lparr>port := 0, bitno := 15\<rparr>]) (replicate 11 (0::'w word)) =
     map_option (\<lambda>R. R[0 := (R ! 0 AND ulong (NOT (push_bit 30 (3::cint)))) OR
                             ulong (push_bit 30 (func p))])
       (calc_PINSEL tbl (replicate 11 0)) \<and>
   calc_PINSEL (tbl @ [p\<lparr>port := 0, bitno := 16\<rparr>]) (replicate 11 (0::'w word)) =
     map_option (\<lambda>R. R[1 := (R ! 1 AND ulong (NOT (push_bit 0 (3::cint)))) OR
                             ulong (push_bit 0 (func p))])
       (calc_PINSEL tbl (replicate 11 0)) \<and>
   map_option fst (calc_PINMODE (tbl @ [p\<lparr>port := 0, bitno := 15\<rparr>])
       (replicate 11 (0::'w word), replicate 5 0)) =
     map_option ((\<lambda>M. M[0 := (M ! 0 AND ulong (NOT (push_bit 30 (3::cint)))) OR
                              ulong (push_bit 30 (mode p))]) \<circ> fst)
       (calc_PINMODE tbl (replicate 11 0, replicate 5 0)) \<and>
   map_option fst (calc_PINMODE (tbl @ [p\<lparr>port := 0, bitno := 16\<rparr>])
       (replicate 11 (0::'w word), replicate 5 0)) =
     map_option ((\<lambda>M. M[1 := (M ! 1 AND ulong (NOT (push_bit 0 (3::cint)))) OR
                              ulong (push_bit 0 (mode p))]) \<circ> fst)
       (calc_PINMODE tbl (replicate 11 0, replicate 5 0)) \<and>
   (q \<in> set tb \<and> port q = 0 \<and> distinct (map (\<lambda>p. (port p, bitno p)) tb) \<longrightarrow>
      ((\<forall>p\<in>set tb. 0 \<le> sint (func p) \<and> sint (func p) \<le> 3) \<longrightarrow>
         (bitno q = 15 \<longrightarrow>
            calc_PINSEL tb (replicate 11 (0::'w word)) =
              map_option (\<lambda>R. R[0 := (R ! 0 AND ulong (NOT (push_bit 30 (3::cint)))) OR
                               ulong (push_bit 30 (func q))])
                (calc_PINSEL (remove1 q tb) (replicate 11 0))) \<and>
         (bitno q = 16 \<longrightarrow>
            calc_PINSEL tb (replicate 11 (0::'w word)) =
              map_option (\<lambda>R. R[1 := (R ! 1 AND ulong (NOT (push_bit 0 (3::cint)))) OR
                               ulong (push_bit 0 (func q))])
                (calc_PINSEL (remove1 q tb) (replicate 11 0)))) \<and>
      ((\<forall>p\<in>set tb. 0 \<le> sint (mode p) \<and> sint (mode p) \<le> 3) \<longrightarrow>
         (bitno q = 15 \<longrightarrow>
            map_option fst (calc_PINMODE tb (replicate 11 (0::'w word), replicate 5 0)) =
              map_option ((\<lambda>M. M[0 := (M ! 0 AND ulong (NOT (push_bit 30 (3::cint)))) OR
                                ulong (push_bit 30 (mode q))]) \<circ> fst)
                (calc_PINMODE (remove1 q tb) (replicate 11 0, replicate 5 0))) \<and>
         (bitno q = 16 \<longrightarrow>
            map_option fst (calc_PINMODE tb (replicate 11 (0::'w word), replicate 5 0)) =
              map_option ((\<lambda>M. M[1 := (M ! 1 AND ulong (NOT (push_bit 0 (3::cint)))) OR
                                ulong (push_bit 0 (mode q))]) \<circ> fst)
                (calc_PINMODE (remove1 q tb) (replicate 11 0, replicate 5 0))))) \<and>
   calc_PINSEL [GSM_TX\<lparr>bitno := 15\<rparr>, GSM_RX\<lparr>bitno := 16, func := 1\<rparr>] (replicate 11 0) =
     Some [0x80000000, 1, 0, 0, 0, 0, 0, 0, 0, 0, 0 :: 32 word] \<and>
   map_option fst (calc_PINMODE [GSM_TX\<lparr>bitno := 15, mode := 3\<rparr>, GSM_RX\<lparr>bitno := 16, mode := 2\<rparr>]
       (replicate 11 0, replicate 5 0)) =
     Some [0xC0000000, 2, 0, 0, 0, 0, 0, 0, 0, 0, 0 :: 32 word]"
proof -
  have one: "PINSEL_reg_bit2 0 15 = (0, 30) \<and> PINMODE_reg_bit2 0 15 = (0, 30) \<and>
   PINSEL_reg_bit2 0 16 = (1, 0) \<and> PINMODE_reg_bit2 0 16 = (1, 0) \<and>
   PINSEL_reg_bit2 = PINMODE_reg_bit2 \<and>
   PINSEL_pin (p\<lparr>port := 0, bitno := 15\<rparr>) (replicate 11 (0::'w::len word)) =
     Some ((replicate 11 0)[0 := ulong (push_bit 30 (func p))]) \<and>
   PINSEL_pin (p\<lparr>port := 0, bitno := 16\<rparr>) (replicate 11 (0::'w word)) =
     Some ((replicate 11 0)[1 := ulong (func p)]) \<and>
   map_option fst (PINMODE_pin (p\<lparr>port := 0, bitno := 15\<rparr>)
       (replicate 11 (0::'w word), replicate 5 0)) =
     Some ((replicate 11 0)[0 := ulong (push_bit 30 (mode p))]) \<and>
   map_option fst (PINMODE_pin (p\<lparr>port := 0, bitno := 16\<rparr>)
       (replicate 11 (0::'w word), replicate 5 0)) =
     Some ((replicate 11 0)[1 := ulong (mode p)])"
    by (simp add: PINSEL_pin_def PINMODE_pin_def PINSEL_reg_bit2_def PINMODE_reg_bit2_def
        elem_def shl_def port_bit_def Let_def fun_eq_iff)
  have s15: "calc_PINSEL (tbl @ [p\<lparr>port := 0, bitno := 15\<rparr>]) (replicate 11 (0::'w word)) =
     map_option (\<lambda>R. R[0 := (R ! 0 AND ulong (NOT (push_bit 30 (3::cint)))) OR
                             ulong (push_bit 30 (func p))])
       (calc_PINSEL tbl (replicate 11 0))"
    by (rule calc_PINSEL_then_pin) (simp add: PINSEL_pin_15)
  have s16: "calc_PINSEL (tbl @ [p\<lparr>port := 0, bitno := 16\<rparr>]) (replicate 11 (0::'w word)) =
     map_option (\<lambda>R. R[1 := (R ! 1 AND ulong (NOT (push_bit 0 (3::cint)))) OR
                             ulong (push_bit 0 (func p))])
       (calc_PINSEL tbl (replicate 11 0))"
    by (rule calc_PINSEL_then_pin) (simp add: PINSEL_pin_16)
  have m15: "map_option fst (calc_PINMODE (tbl @ [p\<lparr>port := 0, bitno := 15\<rparr>])
       (replicate 11 (0::'w word), replicate 5 0)) =
     map_option ((\<lambda>M. M[0 := (M ! 0 AND ulong (NOT (push_bit 30 (3::cint)))) OR
                              ulong (push_bit 30 (mode p))]) \<circ> fst)
       (calc_PINMODE tbl (replicate 11 0, replicate 5 0))"
    by (rule calc_PINMODE_then_pin) (simp add: PINMODE_pin_15)
  have m16: "map_option fst (calc_PINMODE (tbl @ [p\<lparr>port := 0, bitno := 16\<rparr>])
       (replicate 11 (0::'w word), replicate 5 0)) =
     map_option ((\<lambda>M. M[1 := (M ! 1 AND ulong (NOT (push_bit 0 (3::cint)))) OR
                              ulong (push_bit 0 (mode p))]) \<circ> fst)
       (calc_PINMODE tbl (replicate 11 0, replicate 5 0))"
    by (rule calc_PINMODE_then_pin) (simp add: PINMODE_pin_16)
  have e1: "calc_PINSEL [GSM_TX\<lparr>bitno := 15\<rparr>, GSM_RX\<lparr>bitno := 16, func := 1\<rparr>] (replicate 11 0) =
     Some [0x80000000, 1, 0, 0, 0, 0, 0, 0, 0, 0, 0 :: 32 word]"
    by code_simp
  have e2: "map_option fst (calc_PINMODE [GSM_TX\<lparr>bitno := 15, mode := 3\<rparr>, GSM_RX\<lparr>bitno := 16, mode := 2\<rparr>]
       (replicate 11 0, replicate 5 0)) =
     Some [0xC0000000, 2, 0, 0, 0, 0, 0, 0, 0, 0, 0 :: 32 word]"
    by code_simp
  have any: "(q \<in> set tb \<and> port q = 0 \<and> distinct (map (\<lambda>p. (port p, bitno p)) tb) \<longrightarrow>
      ((\<forall>p\<in>set tb. 0 \<le> sint (func p) \<and> sint (func p) \<le> 3) \<longrightarrow>
         (bitno q = 15 \<longrightarrow>
            calc_PINSEL tb (replicate 11 (0::'w word)) =
              map_option (\<lambda>R. R[0 := (R ! 0 AND ulong (NOT (push_bit 30 (3::cint)))) OR
                               ulong (push_bit 30 (func q))])
                (calc_PINSEL (remove1 q tb) (replicate 11 0))) \<and>
         (bitno q = 16 \<longrightarrow>
            calc_PINSEL tb (replicate 11 (0::'w word)) =
              map_option (\<lambda>R. R[1 := (R ! 1 AND ulong (NOT (push_bit 0 (3::cint)))) OR
                               ulong (push_bit 0 (func q))])
                (calc_PINSEL (remove1 q tb) (replicate 11 0)))) \<and>
      ((\<forall>p\<in>set tb. 0 \<le> sint (mode p) \<and> sint (mode p) \<le> 3) \<longrightarrow>
         (bitno q = 15 \<longrightarrow>
            map_option fst (calc_PINMODE tb (replicate 11 (0::'w word), replicate 5 0)) =
              map_option ((\<lambda>M. M[0 := (M ! 0 AND ulong (NOT (push_bit 30 (3::cint)))) OR
                                ulong (push_bit 30 (mode q))]) \<circ> fst)
                (calc_PINMODE (remove1 q tb) (replicate 11 0, replicate 5 0))) \<and>
         (bitno q = 16 \<longrightarrow>
            map_option fst (calc_PINMODE tb (replicate 11 (0::'w word), replicate 5 0)) =
              map_option ((\<lambda>M. M[1 := (M ! 1 AND ulong (NOT (push_bit 0 (3::cint)))) OR
                                ulong (push_bit 0 (mode q))]) \<circ> fst)
                (calc_PINMODE (remove1 q tb) (replicate 11 0, replicate 5 0)))))"
  proof (intro impI conjI)
    assume h: "q \<in> set tb \<and> port q = 0 \<and> distinct (map (\<lambda>p. (port p, bitno p)) tb)"
    then have ms: "mset (remove1 q tb @ [q]) = mset tb" by simp
    from h have di: "distinct (map (\<lambda>p. (port p, bitno p)) tb)" by blast
    {
      assume f: "\<forall>p\<in>set tb. 0 \<le> sint (func p) \<and> sint (func p) \<le> 3"
      have sw: "calc_PINSEL tb (replicate 11 (0::'w word)) =
          calc_PINSEL (remove1 q tb @ [q]) (replicate 11 0)"
        unfolding calc_PINSEL_steps by (simp only: field_fold_perm[OF ms di f])
      {
        assume b: "bitno q = 15"
        from h have p0: "port q = 0" by blast
        have "\<And>R::'w word list. length R = 11 \<Longrightarrow> PINSEL_pin q R = Some ((\<lambda>R. R[0 := (R ! 0 AND ulong (NOT (push_bit 30 (3::cint)))) OR
                               ulong (push_bit 30 (func q))]) R)"
          by (simp add: PINSEL_pin_at_15[OF _ p0 b])
        from calc_PINSEL_then_pin[OF this] sw
        show "calc_PINSEL tb (replicate 11 (0::'w word)) =
              map_option (\<lambda>R. R[0 := (R ! 0 AND ulong (NOT (push_bit 30 (3::cint)))) OR
                               ulong (push_bit 30 (func q))])
                (calc_PINSEL (remove1 q tb) (replicate 11 0))"
          by simp
      }
      {
        assume b: "bitno q = 16"
        from h have p0: "port q = 0" by blast
        have "\<And>R::'w word list. length R = 11 \<Longrightarrow> PINSEL_pin q R = Some ((\<lambda>R. R[1 := (R ! 1 AND ulong (NOT (push_bit 0 (3::cint)))) OR
                               ulong (push_bit 0 (func q))]) R)"
          by (simp add: PINSEL_pin_at_16[OF _ p0 b])
        from calc_PINSEL_then_pin[OF this] sw
        show "calc_PINSEL tb (replicate 11 (0::'w word)) =
              map_option (\<lambda>R. R[1 := (R ! 1 AND ulong (NOT (push_bit 0 (3::cint)))) OR
                               ulong (push_bit 0 (func q))])
                (calc_PINSEL (remove1 q tb) (replicate 11 0))"
          by simp
      }
    }
    {
      assume f: "\<forall>p\<in>set tb. 0 \<le> sint (mode p) \<and> sint (mode p) \<le> 3"
      have sw: "calc_PINMODE tb (replicate 11 (0::'w word), replicate 5 0) =
          calc_PINMODE (remove1 q tb @ [q]) (replicate 11 0, replicate 5 0)"
        unfolding calc_PINMODE_steps
        by (simp only: field_fold_perm[OF ms di f] bit_fold_perm[OF ms di])
      {
        assume b: "bitno q = 15"
        from h have p0: "port q = 0" by blast
        have "\<And>(M::'w word list) (D::'w word list). length M = 11 \<Longrightarrow> length D = 5 \<Longrightarrow>
            map_option fst (PINMODE_pin q (M, D)) =
            Some ((\<lambda>M. M[0 := (M ! 0 AND ulong (NOT (push_bit 30 (3::cint)))) OR
                                ulong (push_bit 30 (mode q))]) M)"
          by (simp add: PINMODE_pin_at_15[OF _ _ p0 b])
        from calc_PINMODE_then_pin[OF this] sw
        show "map_option fst (calc_PINMODE tb (replicate 11 (0::'w word), replicate 5 0)) =
              map_option ((\<lambda>M. M[0 := (M ! 0 AND ulong (NOT (push_bit 30 (3::cint)))) OR
                                ulong (push_bit 30 (mode q))]) \<circ> fst)
                (calc_PINMODE (remove1 q tb) (replicate 11 0, replicate 5 0))"
          by simp
      }
      {
        assume b: "bitno q = 16"
        from h have p0: "port q = 0" by blast
        have "\<And>(M::'w word list) (D::'w word list). length M = 11 \<Longrightarrow> length D = 5 \<Longrightarrow>
            map_option fst (PINMODE_pin q (M, D)) =
            Some ((\<lambda>M. M[1 := (M ! 1 AND ulong (NOT (push_bit 0 (3::cint)))) OR
                                ulong (push_bit 0 (mode q))]) M)"
          by (simp add: PINMODE_pin_at_16[OF _ _ p0 b])
        from calc_PINMODE_then_pin[OF this] sw
        show "map_option fst (calc_PINMODE tb (replicate 11 (0::'w word), replicate 5 0)) =
              map_option ((\<lambda>M. M[1 := (M ! 1 AND ulong (NOT (push_bit 0 (3::cint)))) OR
                                ulong (push_bit 0 (mode q))]) \<circ> fst)
                (calc_PINMODE (remove1 q tb) (replicate 11 0, replicate 5 0))"
          by simp
      }
    }
  qed
  from one s15 s16 m15 m16 any e1 e2 show ?thesis by blast
qed

text \<open>The two sample rows at the bits 15 and 16, each in turn as the pin \<open>q\<close>.\<close>

theorem addressing_boundary_witness:
  "calc_PINSEL [GSM_TX\<lparr>bitno := 15, mode := 3\<rparr>, GSM_RX\<lparr>bitno := 16, func := 1, mode := 2\<rparr>]
     (replicate 11 (0 :: 32 word)) =
     map_option (\<lambda>R. R[0 := (R ! 0 AND ulong (NOT (push_bit 30 (3::cint)))) OR
                            ulong (push_bit 30 (func (GSM_TX\<lparr>bitno := 15, mode := 3\<rparr>)))])
       (calc_PINSEL [GSM_RX\<lparr>bitno := 16, func := 1, mode := 2\<rparr>] (replicate 11 0)) \<and>
   calc_PINSEL [GSM_RX\<lparr>bitno := 16, func := 1, mode := 2\<rparr>] (replicate 11 0) =
     Some [0, 1, 0, 0, 0, 0, 0, 0, 0, 0, 0 :: 32 word] \<and>
   calc_PINSEL [GSM_TX\<lparr>bitno := 15, mode := 3\<rparr>, GSM_RX\<lparr>bitno := 16, func := 1, mode := 2\<rparr>]
     (replicate 11 0) = Some [0x80000000, 1, 0, 0, 0, 0, 0, 0, 0, 0, 0 :: 32 word] \<and>
   map_option fst (calc_PINMODE
       [GSM_TX\<lparr>bitno := 15, mode := 3\<rparr>, GSM_RX\<lparr>bitno := 16, func := 1, mode := 2\<rparr>]
       (replicate 11 (0 :: 32 word), replicate 5 0)) =
     map_option ((\<lambda>M. M[1 := (M ! 1 AND ulong (NOT (push_bit 0 (3::cint)))) OR
                             ulong (push_bit 0 (mode (GSM_RX\<lparr>bitno := 16, func := 1, mode := 2\<rparr>)))])
                 \<circ> fst)
       (calc_PINMODE [GSM_TX\<lparr>bitno := 15, mode := 3\<rparr>] (replicate 11 0, replicate 5 0)) \<and>
   map_option fst (calc_PINMODE [GSM_TX\<lparr>bitno := 15, mode := 3\<rparr>] (replicate 11 0, replicate 5 0)) =
     Some [0xC0000000, 0, 0, 0, 0, 0, 0, 0, 0, 0, 0 :: 32 word] \<and>
   map_option fst (calc_PINMODE
       [GSM_TX\<lparr>bitno := 15, mode := 3\<rparr>, GSM_RX\<lparr>bitno := 16, func := 1, mode := 2\<rparr>]
       (replicate 11 0, replicate 5 0)) =
     Some [0xC0000000, 2, 0, 0, 0, 0, 0, 0, 0, 0, 0 :: 32 word]"
proof -
  let ?A = "GSM_TX\<lparr>bitno := 15, mode := 3\<rparr>"
  let ?B = "GSM_RX\<lparr>bitno := 16, func := 1, mode := 2\<rparr>"
  have ne: "?A \<noteq> ?B" by (simp add: GSM_TX_def GSM_RX_def)
  have ra: "remove1 ?A [?A, ?B] = [?B]" by simp
  have rb: "remove1 ?B [?A, ?B] = [?A]" using ne by simp
  have ia: "?A \<in> set [?A, ?B]" and ib: "?B \<in> set [?A, ?B]" by simp_all
  have pa: "port ?A = 0" "bitno ?A = 15" by (simp_all add: GSM_TX_def)
  have pb: "port ?B = 0" "bitno ?B = 16" by (simp_all add: GSM_RX_def)
  have di: "distinct (map (\<lambda>p. (port p, bitno p)) [?A, ?B])"
    by (simp add: GSM_TX_def GSM_RX_def)
  have f: "\<forall>p\<in>set [?A, ?B]. 0 \<le> sint (func p) \<and> sint (func p) \<le> 3"
    by (simp add: GSM_TX_def GSM_RX_def)
  have m: "\<forall>p\<in>set [?A, ?B]. 0 \<le> sint (mode p) \<and> sint (mode p) \<le> 3"
    by (simp add: GSM_TX_def GSM_RX_def)
  have e1: "calc_PINSEL [?B] (replicate 11 0) = Some [0, 1, 0, 0, 0, 0, 0, 0, 0, 0, 0 :: 32 word]"
    by code_simp
  have e2: "map_option fst (calc_PINMODE [?A] (replicate 11 0, replicate 5 0)) =
      Some [0xC0000000, 0, 0, 0, 0, 0, 0, 0, 0, 0, 0 :: 32 word]"
    by code_simp
  from addressing_boundary[where 'w = 32 and q = ?A and tb = "[?A, ?B]"] ia pa di f
  have one: "calc_PINSEL [?A, ?B] (replicate 11 (0 :: 32 word)) =
     map_option (\<lambda>R. R[0 := (R ! 0 AND ulong (NOT (push_bit 30 (3::cint)))) OR
                            ulong (push_bit 30 (func ?A))])
       (calc_PINSEL (remove1 ?A [?A, ?B]) (replicate 11 0))"
    by blast
  from addressing_boundary[where 'w = 32 and q = ?B and tb = "[?A, ?B]"] ib pb di m
  have two: "map_option fst (calc_PINMODE [?A, ?B] (replicate 11 (0 :: 32 word), replicate 5 0)) =
     map_option ((\<lambda>M. M[1 := (M ! 1 AND ulong (NOT (push_bit 0 (3::cint)))) OR
                             ulong (push_bit 0 (mode ?B))]) \<circ> fst)
       (calc_PINMODE (remove1 ?B [?A, ?B]) (replicate 11 0, replicate 5 0))"
    by blast
  have v1: "calc_PINSEL [?A, ?B] (replicate 11 0) =
      Some [0x80000000, 1, 0, 0, 0, 0, 0, 0, 0, 0, 0 :: 32 word]"
    unfolding one ra e1 by (simp add: GSM_TX_def ulong_def)
  have v2: "map_option fst (calc_PINMODE [?A, ?B] (replicate 11 0, replicate 5 0)) =
      Some [0xC0000000, 2, 0, 0, 0, 0, 0, 0, 0, 0, 0 :: 32 word]"
    unfolding two rb using e2 by (auto simp: GSM_RX_def ulong_def)
  from one[unfolded ra] two[unfolded rb] e1 e2 v1 v2 show ?thesis by blast
qed

section \<open>A pin without a function-select field\<close>

text \<open>
  C1. The claim is that calc_PINSEL ORs the function-select value in masked to two
  bits, so that a pin sets no bit outside its own 2-bit field. The code does not
  mask: for the first sample row without its FUNC column, \<open>func\<close> keeps the default
  0xff, and the run sets the bits 0 to 7 of PINSEL0, which are the fields of the
  bits 0 to 3 of port 0.
\<close>

theorem default_func_spills_over_field:
  "map_option (\<lambda>r. (exit_code r, table r, map_option PINSEL_image (images r), take 1 (defines_h r)))
     (main ''ZEBRA'' (sample_header @ ''1,46,0,0,RD1,TXD3,SDA1,GSM_TX,,0,,,,'' @ [CHR 0x0A])
        :: 32 word run option) =
   Some (0, [GSM_TX\<lparr>func := NA\<rparr>], Some [0xff, 0, 0, 0, 0, 0, 0, 0, 0, 0, 0],
         [''#define ZEBRA_PINSEL0_INIT (0x000000ff)'' @ [CHR 0x0A]])"
  by code_simp

section \<open>A blank line\<close>

text \<open>
  C10. A line that holds only a line terminator is not skipped: its field 0 is the
  newline character, of length 1, which does not scan as a number, so that the field
  loop jumps to the error exit and the program ends with exit code 99, here on the
  third line of the input.
\<close>

theorem blank_line_is_fatal:
  "strcspn_comma (cstr [CHR 0x0A]) = 1 \<and>
   sscanf_d [CHR 0x0A] = Unmatched \<and>
   scan_fields (cstr [CHR 0x0A]) 0 0 line_init = Fatal 0 [CHR 0x0A] \<and>
   main_loop PREFIX st ([CHR 0x0A] # rest) = Failed (st\<lparr>lineno := lineno st + 1\<rparr>) 0 [CHR 0x0A] \<and>
   map_option (\<lambda>r. (exit_code r, stderr r, table r))
     (main ''ZEBRA'' (sample_header @ sample_row1 @ [CHR 0x0A] @ sample_row2) :: 32 word run option) =
   Some (99, [''Error: line 3, Field 0, String '' @ [CHR 0x0A, CHR 0x0A]], [GSM_TX])"
proof -
  have a: "strcspn_comma (cstr [CHR 0x0A]) = 1" by code_simp
  have b: "sscanf_d [CHR 0x0A] = Unmatched" by code_simp
  have c: "scan_fields (cstr [CHR 0x0A]) 0 0 line_init = Fatal 0 [CHR 0x0A]" by code_simp
  have d: "main_loop PREFIX st ([CHR 0x0A] # rest) = Failed (st\<lparr>lineno := lineno st + 1\<rparr>) 0 [CHR 0x0A]"
    using c by (simp add: cstr_def)
  have e: "map_option (\<lambda>r. (exit_code r, stderr r, table r))
     (main ''ZEBRA'' (sample_header @ sample_row1 @ [CHR 0x0A] @ sample_row2) :: 32 word run option) =
   Some (99, [''Error: line 3, Field 0, String '' @ [CHR 0x0A, CHR 0x0A]], [GSM_TX])"
    by code_simp
  from a b c d e show ?thesis by blast
qed

section \<open>Register blocks of the header file\<close>

lemma print_loop_map:
  "print_loop PREFIX name R i n = map (\<lambda>k. define_INIT PREFIX name k (R ! k)) [i..<n]"
proof (induction PREFIX name R i n rule: print_loop.induct)
  case (1 PREFIX name R i n)
  show ?case
  proof (cases "i < n")
    case True
    with 1 show ?thesis
      by (subst print_loop.simps) (simp add: upt_conv_Cons)
  next
    case False
    then show ?thesis by (subst print_loop.simps) simp
  qed
qed

text \<open>
  C5, as amended. The emitter writes one \<open>#define\<close> for each index of its loop and
  a blank line after each block: 11 for the function-select family (PINSEL0 to
  PINSEL10), 10 for the mode family (PINMODE0 to PINMODE9: the element PINMODE[10] of
  the array is not written), and 5 each for the mode-open-drain, direction,
  default-state and mask families. The indices are written as distinct numbers.
\<close>

theorem one_define_per_register:
  "print_PINSEL PREFIX PINSEL =
     map (\<lambda>i. define_INIT PREFIX ''PINSEL'' i (PINSEL ! i)) [0..<11] @ [[CHR 0x0A]] \<and>
   print_PINMODE PREFIX PINMODE PINMODE_OD =
     map (\<lambda>i. define_INIT PREFIX ''PINMODE'' i (PINMODE ! i)) [0..<10] @ [[CHR 0x0A]] @
     map (\<lambda>i. define_INIT PREFIX ''PINMODE_OD'' i (PINMODE_OD ! i)) [0..<5] @ [[CHR 0x0A]] \<and>
   print_FIODIR PREFIX FIODIR =
     map (\<lambda>i. define_INIT PREFIX ''FIODIR'' i (FIODIR ! i)) [0..<5] @ [[CHR 0x0A]] \<and>
   print_FIOPIN PREFIX FIOPIN =
     map (\<lambda>i. define_INIT PREFIX ''FIOPIN'' i (FIOPIN ! i)) [0..<5] @ [[CHR 0x0A]] \<and>
   print_FIOMASK PREFIX FIOMASK =
     map (\<lambda>i. define_INIT PREFIX ''FIOMASK'' i (FIOMASK ! i)) [0..<5] @ [[CHR 0x0A]] \<and>
   distinct (map (\<lambda>i. digits 10 (int i)) [0..<11])"
proof -
  have "distinct (map (\<lambda>i. digits 10 (int i)) [0..<11])" by code_simp
  then show ?thesis
    by (simp add: print_PINSEL_def print_PINMODE_def print_FIODIR_def print_FIOPIN_def
        print_FIOMASK_def print_loop_map)
qed

text \<open>
  C5 as stated fails: the header file has no constant PINMODE10, the last constant
  of the mode family is PINMODE9, while PINSEL10 is written.
\<close>

theorem PINMODE10_not_written:
  "length (print_PINMODE ''ZEBRA'' (replicate 11 (0 :: 32 word)) (replicate 5 0)) = 17 \<and>
   ''#define ZEBRA_PINMODE9_INIT (0x00000000)'' @ [CHR 0x0A] \<in>
     set (print_PINMODE ''ZEBRA'' (replicate 11 (0 :: 32 word)) (replicate 5 0)) \<and>
   ''#define ZEBRA_PINMODE10_INIT (0x00000000)'' @ [CHR 0x0A] \<notin>
     set (print_PINMODE ''ZEBRA'' (replicate 11 (0 :: 32 word)) (replicate 5 0)) \<and>
   ''#define ZEBRA_PINSEL10_INIT (0x00000000)'' @ [CHR 0x0A] \<in>
     set (print_PINSEL ''ZEBRA'' (replicate 11 (0 :: 32 word)))"
  by code_simp

section \<open>The main loop and the pin table\<close>

subsection \<open>The invariant of the loop\<close>

lemma table_ok_lineno [simp]: "table_ok (st\<lparr>lineno := n\<rparr>) = table_ok st"
  by (simp add: table_ok_def)

lemma table_ok_append:
  assumes "table_ok st" and "seqno st < MAXPINS" and "seq pd = of_nat (seqno st)"
  shows "table_ok (st\<lparr>fouth := h, foutc := c, pins := pins st @ [pd], seqno := seqno st + 1\<rparr>)"
  using assms by (simp add: table_ok_def)

lemma main_loop_skip:
  assumes "take 3 (cstr l) \<noteq> ''END''"
    and "scan_fields (cstr l) 0 0 line_init = Scanned v"
    and "pinnum v = 0 \<or> signame v = []"
  shows "main_loop PREFIX st (l # ls) = main_loop PREFIX (st\<lparr>lineno := lineno st + 1\<rparr>) ls"
  using assms by (auto simp: Let_def)

lemma main_loop_table_ok:
  assumes "table_ok st" and "seqno st < MAXPINS"
  shows "case main_loop PREFIX st ls of
           Finished st' \<Rightarrow> table_ok st'
         | Failed st' i f \<Rightarrow> table_ok st'
         | Undefined_behaviour \<Rightarrow> True"
  using assms
proof (induction ls arbitrary: st)
  case Nil
  then show ?case by simp
next
  case (Cons l ls)
  let ?st1 = "st\<lparr>lineno := lineno st + 1\<rparr>"
  have ok1: "table_ok ?st1" "seqno ?st1 < MAXPINS" using Cons.prems by simp_all
  note skip = Cons.IH[OF ok1]
  show ?case
  proof (cases "take 3 (cstr l) = ''END''")
    case True
    with Cons.prems show ?thesis by simp
  next
    case False
    show ?thesis
    proof (cases "scan_fields (cstr l) 0 0 line_init")
      case (Fatal i f)
      with False Cons.prems show ?thesis by simp
    next
      case Undefined
      with False show ?thesis by simp
    next
      case (Scanned v)
      show ?thesis
      proof (cases "pinnum v = 0 \<or> signame v = []")
        case True
        with skip main_loop_skip[OF False Scanned, of PREFIX st ls] show ?thesis by simp
      next
        case acc: False
        define pd where "pd = \<lparr>seq = of_nat (seqno ?st1), pinnum = pinnum v, port = port v,
                        bitno = bitno v,
                        altfunc1 = strncpy (altfunc1 v) MAXCHARS,
                        altfunc2 = strncpy (altfunc2 v) MAXCHARS,
                        altfunc3 = strncpy (altfunc3 v) MAXCHARS,
                        signame = strncpy (signame v) MAXCHARS,
                        func = func v, inout = inout v, mode = mode v,
                        odrain = odrain v, def = def v, active = active v\<rparr>"
        define st2 where "st2 = ?st1\<lparr>fouth := fouth ?st1 @ [print_pindef_h PREFIX pd],
                           foutc := foutc ?st1 @ [print_pindef_c PREFIX pd],
                           pins := pins ?st1 @ [pd],
                           seqno := seqno ?st1 + 1\<rparr>"
        have ml: "main_loop PREFIX st (l # ls) =
            (if seqno st2 \<ge> MAXPINS then Finished st2 else main_loop PREFIX st2 ls)"
          using False Scanned acc by (simp add: pd_def st2_def Let_def)
        have "seq pd = of_nat (seqno ?st1)" by (simp add: pd_def)
        from table_ok_append[OF ok1 this] have ok2: "table_ok st2"
          by (simp add: st2_def)
        show ?thesis
        proof (cases "seqno st2 \<ge> MAXPINS")
          case True
          with ml ok2 show ?thesis by simp
        next
          case False
          then have "seqno st2 < MAXPINS" by simp
          from Cons.IH[OF ok2 this] ml False show ?thesis by simp
        qed
      qed
    qed
  qed
qed

lemma main_table_ok:
  assumes "main PREFIX file = Some (r :: 'w::len word run)"
  shows "length (table r) \<le> MAXPINS \<and> map seq (table r) = map of_nat [0..<length (table r)]"
proof -
  let ?st0 = "\<lparr>seqno = 0, lineno = 1, pins = [], fouth = [], foutc = []\<rparr>"
  have "table_ok ?st0" "seqno ?st0 < MAXPINS" by (simp_all add: table_ok_def MAXPINS_def)
  from main_loop_table_ok[OF this, of PREFIX "drop 1 (read_lines file)"] assms
  show ?thesis
    by (auto simp: main_def table_ok_def split: loop_result.splits option.splits)
qed

subsection \<open>The field loop, field by field\<close>

lemma sint_small: "i \<le> 256 \<Longrightarrow> sint (of_nat i :: cint) = int i"
proof -
  assume "i \<le> 256"
  then have "- (2 ^ 31) \<le> int i" "int i < 2 ^ 31" by simp_all
  then have "signed_take_bit 31 (int i) = int i"
    by (simp add: signed_take_bit_int_eq_self)
  then show ?thesis by (simp add: signed_of_nat)
qed

lemma parse_field_Next_indep:
  "(case parse_field j f v of Next a \<Rightarrow> True | _ \<Rightarrow> False) =
   (case parse_field j f v' of Next a \<Rightarrow> True | _ \<Rightarrow> False)"
  by (simp add: parse_field_def required_def optional_def split: scanned.splits)

lemma scan_fields_step:
  "i < 14 \<Longrightarrow> scan_fields lp i (field_beg lp i) v =
     (case (if field_len lp i \<noteq> 0 then parse_field i (field_text lp i) v else Next v) of
        Error \<Rightarrow> Fatal i (field_text lp i)
      | Undef \<Rightarrow> Undefined
      | Break \<Rightarrow> Scanned v
      | Next v' \<Rightarrow> scan_fields lp (Suc i) (field_beg lp (Suc i)) v')"
  by (subst scan_fields.simps)
    (auto simp: field_len_def field_text_def Let_def split: field_result.splits)

lemma scan_prefix:
  assumes "i \<le> 14" and "\<forall>j<i. field_passes lp j"
  shows "\<exists>v. scan_fields lp 0 0 line_init = scan_fields lp i (field_beg lp i) v"
  using assms
proof (induction i)
  case 0
  then show ?case by auto
next
  case (Suc i)
  then obtain v where v: "scan_fields lp 0 0 line_init = scan_fields lp i (field_beg lp i) v"
    by auto
  from Suc.prems have i: "i < 14" and p: "field_passes lp i" by simp_all
  show ?case
  proof (cases "field_len lp i = 0")
    case True
    with v i show ?thesis by (auto simp: scan_fields_step)
  next
    case False
    with p have "case parse_field i (field_text lp i) line_init of Next a \<Rightarrow> True | _ \<Rightarrow> False"
      by (simp add: field_passes_def)
    then have "case parse_field i (field_text lp i) v of Next a \<Rightarrow> True | _ \<Rightarrow> False"
      using parse_field_Next_indep by blast
    then obtain v' where "parse_field i (field_text lp i) v = Next v'"
      by (auto split: field_result.splits)
    with v i False show ?thesis by (auto simp: scan_fields_step)
  qed
qed

lemma NA_line_scanned:
  assumes "field_passes lp 0" and "field_len lp 1 \<noteq> 0" and "take 3 (field_text lp 1) = ''N/A''"
  shows "\<exists>v. scan_fields lp 0 0 line_init = Scanned v \<and> pinnum v = 0"
proof -
  have na: "parse_field 1 (field_text lp 1) v = Break" for v
    using assms(3) by (simp add: parse_field_def)
  have s1: "scan_fields lp (Suc 0) (field_beg lp (Suc 0)) v = Scanned v" for v
    using scan_fields_step[of "Suc 0" lp v] assms(2) na by simp
  have b0: "field_beg lp 0 = 0" by simp
  note s0 = scan_fields_step[of 0 lp line_init, unfolded b0]
  show ?thesis
  proof (cases "field_len lp 0 = 0")
    case True
    with s0 s1 have "scan_fields lp 0 0 line_init = Scanned line_init"
      by (simp del: field_beg.simps)
    then show ?thesis by (simp add: line_init_def)
  next
    case False
    with assms(1) obtain v' where v': "parse_field 0 (field_text lp 0) line_init = Next v'"
      by (auto simp: field_passes_def split: field_result.splits)
    then have "pinnum v' = 0"
      by (auto simp: parse_field_def required_def line_init_def split: scanned.splits)
    moreover from v' False s0 s1 have "scan_fields lp 0 0 line_init = Scanned v'"
      by (simp del: field_beg.simps)
    ultimately show ?thesis by simp
  qed
qed

subsection \<open>The local variables after the fields\<close>

lemma scan_locals:
  assumes "i \<le> 14" and "\<forall>j<i. field_passes lp j"
  shows "scan_fields lp 0 0 line_init = scan_fields lp i (field_beg lp i) (locals_after lp i)"
  using assms
proof (induction i)
  case 0
  then show ?case by simp
next
  case (Suc i)
  then have v: "scan_fields lp 0 0 line_init = scan_fields lp i (field_beg lp i) (locals_after lp i)"
    by auto
  from Suc.prems have i: "i < 14" and p: "field_passes lp i" by simp_all
  show ?case
  proof (cases "field_len lp i = 0")
    case True
    with v i show ?thesis by (simp add: scan_fields_step del: field_beg.simps)
  next
    case False
    with p have "case parse_field i (field_text lp i) line_init of Next a \<Rightarrow> True | _ \<Rightarrow> False"
      by (simp add: field_passes_def)
    then have "case parse_field i (field_text lp i) (locals_after lp i) of Next a \<Rightarrow> True | _ \<Rightarrow> False"
      using parse_field_Next_indep by blast
    then obtain v' where "parse_field i (field_text lp i) (locals_after lp i) = Next v'"
      by (auto split: field_result.splits)
    with v i False show ?thesis by (simp add: scan_fields_step del: field_beg.simps)
  qed
qed

lemma scan_fields_end: "scan_fields lp 14 beg v = Scanned v"
  by (subst scan_fields.simps) simp

lemma scan_all_pass:
  assumes "\<forall>j<14. field_passes lp j"
  shows "scan_fields lp 0 0 line_init = Scanned (locals_after lp 14)"
  using scan_locals[where i = 14 and lp = lp] assms by (simp add: scan_fields_end)

lemma parse_field_keeps:
  assumes "parse_field j f v = Next v'"
  shows "(j \<noteq> 1 \<longrightarrow> pinnum v' = pinnum v) \<and> (j \<noteq> 2 \<longrightarrow> port v' = port v) \<and>
         (j \<noteq> 3 \<longrightarrow> bitno v' = bitno v) \<and> (j \<noteq> 7 \<longrightarrow> signame v' = signame v)"
  using assms
  by (auto simp: parse_field_def required_def optional_def split: scanned.splits if_splits)

lemma locals_after_keeps:
  "(j \<noteq> 1 \<longrightarrow> pinnum (locals_after lp (Suc j)) = pinnum (locals_after lp j)) \<and>
   (j \<noteq> 2 \<longrightarrow> port (locals_after lp (Suc j)) = port (locals_after lp j)) \<and>
   (j \<noteq> 3 \<longrightarrow> bitno (locals_after lp (Suc j)) = bitno (locals_after lp j)) \<and>
   (j \<noteq> 7 \<longrightarrow> signame (locals_after lp (Suc j)) = signame (locals_after lp j))"
  using parse_field_keeps[of j "field_text lp j" "locals_after lp j"]
  by (auto split: field_result.splits)

lemma pinnum_unchanged:
  "k \<le> i \<Longrightarrow> i \<le> 1 \<or> 2 \<le> k \<Longrightarrow> pinnum (locals_after lp i) = pinnum (locals_after lp k)"
proof (induction i)
  case 0
  then show ?case by simp
next
  case (Suc i)
  show ?case
  proof (cases "k = Suc i")
    case True
    then show ?thesis by simp
  next
    case False
    with Suc.prems have "k \<le> i" "i \<le> 1 \<or> 2 \<le> k" "i \<noteq> 1" by auto
    with Suc.IH locals_after_keeps[of i lp] show ?thesis by (simp del: locals_after.simps)
  qed
qed

lemma port_unchanged:
  "k \<le> i \<Longrightarrow> i \<le> 2 \<or> 3 \<le> k \<Longrightarrow> port (locals_after lp i) = port (locals_after lp k)"
proof (induction i)
  case 0
  then show ?case by simp
next
  case (Suc i)
  show ?case
  proof (cases "k = Suc i")
    case True
    then show ?thesis by simp
  next
    case False
    with Suc.prems have "k \<le> i" "i \<le> 2 \<or> 3 \<le> k" "i \<noteq> 2" by auto
    with Suc.IH locals_after_keeps[of i lp] show ?thesis by (simp del: locals_after.simps)
  qed
qed

lemma bitno_unchanged:
  "k \<le> i \<Longrightarrow> i \<le> 3 \<or> 4 \<le> k \<Longrightarrow> bitno (locals_after lp i) = bitno (locals_after lp k)"
proof (induction i)
  case 0
  then show ?case by simp
next
  case (Suc i)
  show ?case
  proof (cases "k = Suc i")
    case True
    then show ?thesis by simp
  next
    case False
    with Suc.prems have "k \<le> i" "i \<le> 3 \<or> 4 \<le> k" "i \<noteq> 3" by auto
    with Suc.IH locals_after_keeps[of i lp] show ?thesis by (simp del: locals_after.simps)
  qed
qed

lemma signame_unchanged:
  "k \<le> i \<Longrightarrow> i \<le> 7 \<or> 8 \<le> k \<Longrightarrow> signame (locals_after lp i) = signame (locals_after lp k)"
proof (induction i)
  case 0
  then show ?case by simp
next
  case (Suc i)
  show ?case
  proof (cases "k = Suc i")
    case True
    then show ?thesis by simp
  next
    case False
    with Suc.prems have "k \<le> i" "i \<le> 7 \<or> 8 \<le> k" "i \<noteq> 7" by auto
    with Suc.IH locals_after_keeps[of i lp] show ?thesis by (simp del: locals_after.simps)
  qed
qed

lemma locals_after_step:
  "locals_after lp (Suc i) =
     (if field_len lp i = 0 then locals_after lp i
      else (case parse_field i (field_text lp i) (locals_after lp i) of
              Next v \<Rightarrow> v | _ \<Rightarrow> locals_after lp i))"
  by simp

text \<open>The value of a variable after the whole scan, from its field alone.\<close>

lemma pinnum_final:
  assumes "field_len lp 1 = 0 \<or> sscanf_d (field_text lp 1) = Matched 0"
  shows "pinnum (locals_after lp 14) = 0"
proof -
  have a: "pinnum (locals_after lp 14) = pinnum (locals_after lp 2)"
    by (rule pinnum_unchanged) simp_all
  have b: "pinnum (locals_after lp 1) = 0"
    using pinnum_unchanged[of 0 1 lp] by (simp add: line_init_def del: locals_after.simps(2))
  have "pinnum (locals_after lp (Suc 1)) = 0"
    using assms b
    by (subst locals_after_step)
      (auto simp: parse_field_def required_def split: field_result.splits scanned.splits
        simp del: locals_after.simps)
  with a show ?thesis by (simp add: numeral_2_eq_2 del: locals_after.simps)
qed

lemma port_final:
  assumes "field_len lp 2 = 0"
  shows "port (locals_after lp 14) = 0"
proof -
  have a: "port (locals_after lp 14) = port (locals_after lp 3)"
    by (rule port_unchanged) simp_all
  have b: "port (locals_after lp 2) = 0"
    using port_unchanged[of 0 2 lp] by (simp add: line_init_def del: locals_after.simps(2))
  have "locals_after lp (Suc 2) = locals_after lp 2"
    using assms by (subst locals_after_step) simp
  with a b show ?thesis by (simp add: numeral_3_eq_3 numeral_2_eq_2 del: locals_after.simps)
qed

lemma bitno_final:
  assumes "field_len lp 3 = 0"
  shows "bitno (locals_after lp 14) = 0"
proof -
  have a: "bitno (locals_after lp 14) = bitno (locals_after lp 4)"
    by (rule bitno_unchanged) simp_all
  have b: "bitno (locals_after lp 3) = 0"
    using bitno_unchanged[of 0 3 lp] by (simp add: line_init_def del: locals_after.simps(2))
  have "locals_after lp (Suc 3) = locals_after lp 3"
    using assms by (subst locals_after_step) simp
  with a b show ?thesis
    by (simp add: eval_nat_numeral del: locals_after.simps)
qed

lemma signame_final:
  assumes "field_len lp 7 = 0 \<or> length (field_text lp 7) \<le> 1"
  shows "signame (locals_after lp 14) = []"
proof -
  have a: "signame (locals_after lp 14) = signame (locals_after lp 8)"
    by (rule signame_unchanged) simp_all
  have b: "signame (locals_after lp 7) = []"
    using signame_unchanged[of 0 7 lp] by (simp add: line_init_def del: locals_after.simps(2))
  have "signame (locals_after lp (Suc 7)) = []"
    using assms b
    by (subst locals_after_step) (auto simp: parse_field_def simp del: locals_after.simps)
  with a show ?thesis by (simp add: eval_nat_numeral del: locals_after.simps)
qed

section \<open>Skipped lines\<close>

text \<open>
  C6, as amended. Take a line that does not begin with "END". If each of its 14
  fields lets the field loop go on, and field 1 (physical pin) is empty or scans as
  0, or field 7 (signal name) is empty or has at most one character without its
  quotes; or if field 1 begins with the marker "N/A" after a field 0 that lets the
  loop go on: then the scan of the line ends without the error exit, with the
  physical pin 0 or with an empty signal name, and the main loop goes on with the
  next line from the same state, the line count apart: no entry joins the pin
  table, nothing is written to the header file or to the C file, and no error ends
  the run at this line.
\<close>

theorem skipped_line_continues:
  assumes "take 3 (cstr line) \<noteq> ''END''"
    and "((\<forall>j<14. field_passes (cstr line) j) \<and>
          (field_len (cstr line) 1 = 0 \<or> sscanf_d (field_text (cstr line) 1) = Matched 0 \<or>
           field_len (cstr line) 7 = 0 \<or> length (field_text (cstr line) 7) \<le> 1)) \<or>
         (field_passes (cstr line) 0 \<and> field_len (cstr line) 1 \<noteq> 0 \<and>
          take 3 (field_text (cstr line) 1) = ''N/A'')"
  shows "(\<exists>v. scan_fields (cstr line) 0 0 line_init = Scanned v \<and>
              (pinnum v = 0 \<or> signame v = [])) \<and>
         main_loop PREFIX st (line # rest) =
         main_loop PREFIX (st\<lparr>lineno := lineno st + 1\<rparr>) rest"
proof -
  have "\<exists>v. scan_fields (cstr line) 0 0 line_init = Scanned v \<and> (pinnum v = 0 \<or> signame v = [])"
    using assms(2)
  proof (rule disjE)
    assume h: "(\<forall>j<14. field_passes (cstr line) j) \<and>
          (field_len (cstr line) 1 = 0 \<or> sscanf_d (field_text (cstr line) 1) = Matched 0 \<or>
           field_len (cstr line) 7 = 0 \<or> length (field_text (cstr line) 7) \<le> 1)"
    then have p: "\<forall>j<14. field_passes (cstr line) j" by blast
    from h have "pinnum (locals_after (cstr line) 14) = 0 \<or>
        signame (locals_after (cstr line) 14) = []"
      using pinnum_final[of "cstr line"] signame_final[of "cstr line"] by blast
    with scan_all_pass[OF p] show ?thesis by blast
  next
    assume "field_passes (cstr line) 0 \<and> field_len (cstr line) 1 \<noteq> 0 \<and>
          take 3 (field_text (cstr line) 1) = ''N/A''"
    then show ?thesis using NA_line_scanned[of "cstr line"] by blast
  qed
  then obtain v where v: "scan_fields (cstr line) 0 0 line_init = Scanned v"
    "pinnum v = 0 \<or> signame v = []" by blast
  from main_loop_skip[OF assms(1) v] v show ?thesis by blast
qed

text \<open>
  C6 as stated fails: in the line \<open>5,0,x,1,,,,NAME,,,,,,\<close> the physical pin is
  parsed as 0, and the port \<open>x\<close> in field 2 takes the error exit before the test of
  the physical pin is reached. The run reports the error and exits with code 99, and
  the next line, the first sample row, is never read.
\<close>

theorem pin_zero_line_can_be_fatal:
  "sscanf_d (field_text (cstr (''5,0,x,1,,,,NAME,,,,,,'' @ [CHR 0x0A])) 1) = Matched 0 \<and>
   field_text (cstr (''5,0,x,1,,,,NAME,,,,,,'' @ [CHR 0x0A])) 7 = ''NAME'' \<and>
   scan_fields (cstr (''5,0,x,1,,,,NAME,,,,,,'' @ [CHR 0x0A])) 0 0 line_init = Fatal 2 ''x'' \<and>
   map_option (\<lambda>r. (exit_code r, stderr r, table r))
     (main ''ZEBRA'' (sample_header @ ''5,0,x,1,,,,NAME,,,,,,'' @ [CHR 0x0A] @ sample_row1)
        :: 32 word run option) =
   Some (99, [''Error: line 2, Field 2, String x'' @ [CHR 0x0A]], []) \<and>
   map_option (\<lambda>r. (exit_code r, table r))
     (main ''ZEBRA'' (sample_header @ sample_row1) :: 32 word run option) = Some (0, [GSM_TX])"
  by code_simp

text \<open>A row with the marker "N/A" and a row with the physical pin 0, before the first sample row.\<close>

theorem skipped_line_continues_witness:
  "take 3 (cstr (''3,N/A,1,5,,,,SPARE,0,0,,,,'' @ [CHR 0x0A])) \<noteq> ''END'' \<and>
   field_passes (cstr (''3,N/A,1,5,,,,SPARE,0,0,,,,'' @ [CHR 0x0A])) 0 \<and>
   field_len (cstr (''3,N/A,1,5,,,,SPARE,0,0,,,,'' @ [CHR 0x0A])) 1 \<noteq> 0 \<and>
   take 3 (field_text (cstr (''3,N/A,1,5,,,,SPARE,0,0,,,,'' @ [CHR 0x0A])) 1) = ''N/A'' \<and>
   main_loop ''ZEBRA'' \<lparr>seqno = 0, lineno = 1, pins = [], fouth = [], foutc = []\<rparr>
     [''3,N/A,1,5,,,,SPARE,0,0,,,,'' @ [CHR 0x0A], sample_row1] =
   main_loop ''ZEBRA'' \<lparr>seqno = 0, lineno = 2, pins = [], fouth = [], foutc = []\<rparr> [sample_row1] \<and>
   take 3 (cstr (''4,0,1,5,,,,SPARE,0,0,,,,'' @ [CHR 0x0A])) \<noteq> ''END'' \<and>
   sscanf_d (field_text (cstr (''4,0,1,5,,,,SPARE,0,0,,,,'' @ [CHR 0x0A])) 1) = Matched 0 \<and>
   main_loop ''ZEBRA'' \<lparr>seqno = 0, lineno = 1, pins = [], fouth = [], foutc = []\<rparr>
     [''4,0,1,5,,,,SPARE,0,0,,,,'' @ [CHR 0x0A], sample_row1] =
   main_loop ''ZEBRA'' \<lparr>seqno = 0, lineno = 2, pins = [], fouth = [], foutc = []\<rparr> [sample_row1]"
proof -
  let ?n = "''3,N/A,1,5,,,,SPARE,0,0,,,,'' @ [CHR 0x0A]"
  let ?z = "''4,0,1,5,,,,SPARE,0,0,,,,'' @ [CHR 0x0A]"
  let ?st = "\<lparr>seqno = 0, lineno = 1, pins = [], fouth = [], foutc = []\<rparr>"
  have a: "take 3 (cstr ?n) \<noteq> ''END''" by code_simp
  have b: "field_passes (cstr ?n) 0" by code_simp
  have c: "field_len (cstr ?n) 1 \<noteq> 0" by code_simp
  have d: "take 3 (field_text (cstr ?n) 1) = ''N/A''" by code_simp
  have a': "take 3 (cstr ?z) \<noteq> ''END''" by code_simp
  have "\<forall>j\<in>set [0..<14]. field_passes (cstr ?z) j" by code_simp
  then have b': "\<forall>j<14. field_passes (cstr ?z) j" by simp
  have c': "sscanf_d (field_text (cstr ?z) 1) = Matched 0" by code_simp
  from skipped_line_continues[OF a, of "''ZEBRA''" ?st "[sample_row1]"] b c d
  have one: "main_loop ''ZEBRA'' ?st [?n, sample_row1] =
      main_loop ''ZEBRA'' (?st\<lparr>lineno := lineno ?st + 1\<rparr>) [sample_row1]"
    by blast
  from skipped_line_continues[OF a', of "''ZEBRA''" ?st "[sample_row1]"] b' c'
  have two: "main_loop ''ZEBRA'' ?st [?z, sample_row1] =
      main_loop ''ZEBRA'' (?st\<lparr>lineno := lineno ?st + 1\<rparr>) [sample_row1]"
    by blast
  from one two a b c d a' c' show ?thesis
    by (simp del: main_loop.simps add: numeral_2_eq_2)
qed

section \<open>Sequence numbers\<close>

text \<open>
  C7. In the pin table of every run the entry at position \<open>i\<close> holds \<open>i\<close> as \<open>seq\<close>:
  the values are 0, 1, ..., k-1 in the order of the input, whatever the item column
  of the input holds.
\<close>

theorem sequence_is_position:
  assumes "map_option table (main PREFIX file :: 'w::len word run option) = Some tbl"
    and "i < length tbl"
  shows "map seq tbl = map of_nat [0..<length tbl] \<and> sint (seq (tbl ! i)) = int i"
proof -
  from assms(1) obtain r :: "'w word run" where r: "main PREFIX file = Some r" and t: "tbl = table r"
    by auto
  from main_table_ok[OF r] t have len: "length tbl \<le> MAXPINS"
    and m: "map seq tbl = map of_nat [0..<length tbl]" by simp_all
  from m assms(2) have "seq (tbl ! i) = of_nat i"
    by (metis add_0 length_map nth_map nth_upt)
  moreover from len assms(2) have "i \<le> 256" by (simp add: MAXPINS_def)
  ultimately show ?thesis using m by (simp add: sint_small)
qed

text \<open>
  The two sample rows with the items 7 and 3 and a row without a physical pin between
  them give the same two entries, with the sequence values 0 and 1.
\<close>

theorem sequence_is_position_witness:
  "map_option table (main ''ZEBRA'' (sample_header @
       ''7,46,0,0,RD1,TXD3,SDA1,GSM_TX,2,0,,,,'' @ [CHR 0x0A] @
       ''9,N/A,0,5,,,,SPARE,,,,,,'' @ [CHR 0x0A] @
       ''3,47,0,1,TD1,RXD3,SCL1,GSM_RX,2,1,,,,'' @ [CHR 0x0A]) :: 32 word run option) =
     Some [GSM_TX, GSM_RX] \<and>
   map seq [GSM_TX, GSM_RX] = map of_nat [0..<length [GSM_TX, GSM_RX]] \<and>
   sint (seq ([GSM_TX, GSM_RX] ! 1)) = int 1"
proof -
  have a: "map_option table (main ''ZEBRA'' (sample_header @
       ''7,46,0,0,RD1,TXD3,SDA1,GSM_TX,2,0,,,,'' @ [CHR 0x0A] @
       ''9,N/A,0,5,,,,SPARE,,,,,,'' @ [CHR 0x0A] @
       ''3,47,0,1,TD1,RXD3,SCL1,GSM_RX,2,1,,,,'' @ [CHR 0x0A]) :: 32 word run option) =
     Some [GSM_TX, GSM_RX]"
    by code_simp
  have b: "1 < length [GSM_TX, GSM_RX]" by simp
  from sequence_is_position[OF a b] a show ?thesis by blast
qed

section \<open>Capacity of the pin table\<close>

text \<open>
  C8. The pin table of every run has at most 256 entries. When the table holds 255
  entries and a line is accepted, the loop ends with 256 entries and without an
  error, whatever lines follow.
\<close>

theorem table_capped:
  assumes "map_option table (main PREFIX file :: 'w::len word run option) = Some tbl"
    and "seqno st = 255"
    and "take 3 (cstr line) \<noteq> ''END''"
    and "scan_fields (cstr line) 0 0 line_init = Scanned v"
    and "pinnum v \<noteq> 0" and "signame v \<noteq> []"
  shows "length tbl \<le> 256 \<and>
         (\<exists>st'. (\<forall>rest. main_loop P st (line # rest) = Finished st') \<and>
                seqno st' = 256 \<and> length (pins st') = length (pins st) + 1)"
proof -
  from assms(1) obtain r :: "'w word run" where r: "main PREFIX file = Some r" and t: "tbl = table r"
    by auto
  from main_table_ok[OF r] t have len: "length tbl \<le> 256" by (simp add: MAXPINS_def)
  let ?pd = "\<lparr>seq = of_nat (seqno st), pinnum = pinnum v, port = port v, bitno = bitno v,
      altfunc1 = strncpy (altfunc1 v) MAXCHARS, altfunc2 = strncpy (altfunc2 v) MAXCHARS,
      altfunc3 = strncpy (altfunc3 v) MAXCHARS, signame = strncpy (signame v) MAXCHARS,
      func = func v, inout = inout v, mode = mode v, odrain = odrain v, def = def v,
      active = active v\<rparr>"
  let ?st' = "st\<lparr>lineno := lineno st + 1, fouth := fouth st @ [print_pindef_h P ?pd],
      foutc := foutc st @ [print_pindef_c P ?pd], pins := pins st @ [?pd],
      seqno := seqno st + 1\<rparr>"
  have fin: "main_loop P st (line # rest) = Finished ?st'" for rest
    using assms(2-6) by (simp add: Let_def MAXPINS_def)
  have "seqno ?st' = 256" "length (pins ?st') = length (pins st) + 1"
    using assms(2) by simp_all
  with fin len show ?thesis by blast
qed

text \<open>A table of 255 entries and the second sample row, with two different next lines.\<close>

theorem table_capped_witness:
  "map_option table (main ''ZEBRA'' (sample_header @ sample_row1 @ sample_row2) :: 32 word run option) =
     Some [GSM_TX, GSM_RX] \<and>
   length [GSM_TX, GSM_RX] \<le> 256 \<and>
   main_loop ''ZEBRA''
     \<lparr>seqno = 255, lineno = 256, pins = replicate 255 GSM_TX, fouth = [], foutc = []\<rparr>
     [sample_row2, sample_row1] =
   main_loop ''ZEBRA''
     \<lparr>seqno = 255, lineno = 256, pins = replicate 255 GSM_TX, fouth = [], foutc = []\<rparr>
     [sample_row2, [CHR 0x0A]]"
proof -
  have a: "map_option table (main ''ZEBRA'' (sample_header @ sample_row1 @ sample_row2)
      :: 32 word run option) = Some [GSM_TX, GSM_RX]"
    by code_simp
  have b: "seqno \<lparr>seqno = 255, lineno = 256, pins = replicate 255 GSM_TX, fouth = [],
      foutc = []\<rparr> = 255"
    by simp
  have c: "take 3 (cstr sample_row2) \<noteq> ''END''" by code_simp
  have d: "scan_fields (cstr sample_row2) 0 0 line_init = Scanned (GSM_RX\<lparr>seq := 2\<rparr>)"
    by code_simp
  have e: "pinnum (GSM_RX\<lparr>seq := 2\<rparr>) \<noteq> 0" "signame (GSM_RX\<lparr>seq := 2\<rparr>) \<noteq> []"
    by (simp_all add: GSM_RX_def)
  from table_capped[OF a b c d e, of "''ZEBRA''"] a show ?thesis by metis
qed

section \<open>Required fields\<close>

lemma scan_skips_empty:
  assumes "i < 14" and "\<forall>j<i. field_passes lp j" and "field_len lp i = 0"
  shows "scan_fields lp 0 0 line_init =
         scan_fields lp (Suc i) (field_beg lp (Suc i)) (locals_after lp i)"
proof -
  from assms(1) have "i \<le> 14" by simp
  from scan_locals[OF this assms(2)] scan_fields_step[OF assms(1), of lp "locals_after lp i"]
    assms(3)
  show ?thesis by (simp del: field_beg.simps)
qed

text \<open>
  C4, as amended. Take a line that does not begin with "END" and whose fields before
  the field \<open>i\<close>, 2 (port) or 3 (bit), let the field loop go on. When the field \<open>i\<close>
  is not empty and no number is scanned from it, the field loop jumps to the error
  exit at that field, and the main loop ends at this line with the pin table and the
  output files as the lines before have left them; in a run on a file where the
  lines before this line, after the header line, bring the main loop to the state
  \<open>st\<close>, the program writes the error message with the number of the line, the field
  and its text, exits with code 99, and its pin table is that of \<open>st\<close>, without an
  entry from this line. When the field \<open>i\<close> is empty, it is not parsed: the field
  loop goes on to the next field with the port (for field 2) or the bit (for field 3)
  at its initial value 0, without the error exit, and when all fields let the loop
  go on the scan of the line ends with that port or bit 0.
\<close>

theorem required_field_fatal:
  assumes "take 3 (cstr line) \<noteq> ''END''"
    and "i = 2 \<or> i = 3"
    and "\<forall>j<i. field_passes (cstr line) j"
  shows "(field_len (cstr line) i \<noteq> 0 \<and> sscanf_d (field_text (cstr line) i) = Unmatched \<longrightarrow>
           scan_fields (cstr line) 0 0 line_init = Fatal i (field_text (cstr line) i) \<and>
           main_loop PREFIX s (line # ls) =
             Failed (s\<lparr>lineno := lineno s + 1\<rparr>) i (field_text (cstr line) i) \<and>
           (drop 1 (read_lines file) = pre @ line # rest \<and>
            (\<forall>more. main_loop PREFIX \<lparr>seqno = 0, lineno = 1, pins = [], fouth = [], foutc = []\<rparr>
                      (pre @ more) = main_loop PREFIX st more) \<longrightarrow>
            (main PREFIX file :: 'w::len word run option) =
              Some \<lparr>exit_code = 99,
                    stderr = [''Error: line '' @ digits 10 (int (lineno st + 1)) @ '', Field '' @
                              digits 10 (int i) @ '', String '' @ field_text (cstr line) i @
                              [CHR 0x0A]],
                    table = pins st, decls_h = fouth st, decls_c = foutc st,
                    images = None, defines_h = []\<rparr>)) \<and>
         (field_len (cstr line) i = 0 \<longrightarrow>
           (\<exists>v. scan_fields (cstr line) 0 0 line_init =
                  scan_fields (cstr line) (Suc i) (field_beg (cstr line) (Suc i)) v \<and>
                (i = 2 \<longrightarrow> port v = 0) \<and> (i = 3 \<longrightarrow> bitno v = 0)) \<and>
           ((\<forall>j<14. field_passes (cstr line) j) \<longrightarrow>
             (\<exists>v. scan_fields (cstr line) 0 0 line_init = Scanned v \<and>
                  (i = 2 \<longrightarrow> port v = 0) \<and> (i = 3 \<longrightarrow> bitno v = 0))))"
proof (intro conjI impI)
  assume h: "field_len (cstr line) i \<noteq> 0 \<and> sscanf_d (field_text (cstr line) i) = Unmatched"
  from assms(2) have i14: "i \<le> 14" "i < 14" by auto
  from scan_prefix[OF i14(1) assms(3)] obtain v where
    v: "scan_fields (cstr line) 0 0 line_init = scan_fields (cstr line) i (field_beg (cstr line) i) v"
    by blast
  from assms(2) h have "parse_field i (field_text (cstr line) i) v = Error"
    by (auto simp: parse_field_def required_def)
  with scan_fields_step[OF i14(2), of "cstr line" v] h v
  show a: "scan_fields (cstr line) 0 0 line_init = Fatal i (field_text (cstr line) i)"
    by simp
  with assms(1) show b: "main_loop PREFIX s (line # ls) =
      Failed (s\<lparr>lineno := lineno s + 1\<rparr>) i (field_text (cstr line) i)" for s ls
    by (simp add: Let_def)
  assume f: "drop 1 (read_lines file) = pre @ line # rest \<and>
     (\<forall>more. main_loop PREFIX \<lparr>seqno = 0, lineno = 1, pins = [], fouth = [], foutc = []\<rparr>
                (pre @ more) = main_loop PREFIX st more)"
  then have "main_loop PREFIX \<lparr>seqno = 0, lineno = 1, pins = [], fouth = [], foutc = []\<rparr>
      (drop 1 (read_lines file)) = main_loop PREFIX st (line # rest)"
    by simp
  also have "\<dots> = Failed (st\<lparr>lineno := lineno st + 1\<rparr>) i (field_text (cstr line) i)"
    by (rule b)
  finally show "(main PREFIX file :: 'w::len word run option) =
      Some \<lparr>exit_code = 99,
            stderr = [''Error: line '' @ digits 10 (int (lineno st + 1)) @ '', Field '' @
                      digits 10 (int i) @ '', String '' @ field_text (cstr line) i @ [CHR 0x0A]],
            table = pins st, decls_h = fouth st, decls_c = foutc st,
            images = None, defines_h = []\<rparr>"
    by (simp add: main_def)
next
  assume e: "field_len (cstr line) i = 0"
  from assms(2) have i14: "i < 14" by auto
  have d: "(i = 2 \<longrightarrow> port (locals_after (cstr line) i) = 0) \<and>
           (i = 3 \<longrightarrow> bitno (locals_after (cstr line) i) = 0)"
    using port_unchanged[of 0 2 "cstr line"] bitno_unchanged[of 0 3 "cstr line"]
    by (auto simp: line_init_def simp del: locals_after.simps(2))
  with scan_skips_empty[OF i14 assms(3) e]
  show "\<exists>v. scan_fields (cstr line) 0 0 line_init =
                  scan_fields (cstr line) (Suc i) (field_beg (cstr line) (Suc i)) v \<and>
                (i = 2 \<longrightarrow> port v = 0) \<and> (i = 3 \<longrightarrow> bitno v = 0)"
    by blast
  assume p: "\<forall>j<14. field_passes (cstr line) j"
  from e port_final[of "cstr line"] bitno_final[of "cstr line"]
  have "(i = 2 \<longrightarrow> port (locals_after (cstr line) 14) = 0) \<and>
        (i = 3 \<longrightarrow> bitno (locals_after (cstr line) 14) = 0)"
    by auto
  with scan_all_pass[OF p]
  show "\<exists>v. scan_fields (cstr line) 0 0 line_init = Scanned v \<and>
                  (i = 2 \<longrightarrow> port v = 0) \<and> (i = 3 \<longrightarrow> bitno v = 0)"
    by blast
qed

text \<open>
  The second sample row with the bit \<open>x1\<close>, after the first sample row; the first
  sample row with an empty port and the second with an empty bit.
\<close>

theorem required_field_fatal_witness:
  "take 3 (cstr (''2,47,0,x1,TD1,RXD3,SCL1,GSM_RX,2,1,,,,'' @ [CHR 0x0A])) \<noteq> ''END'' \<and>
   field_len (cstr (''2,47,0,x1,TD1,RXD3,SCL1,GSM_RX,2,1,,,,'' @ [CHR 0x0A])) 3 \<noteq> 0 \<and>
   field_text (cstr (''2,47,0,x1,TD1,RXD3,SCL1,GSM_RX,2,1,,,,'' @ [CHR 0x0A])) 3 = ''x1'' \<and>
   sscanf_d ''x1'' = Unmatched \<and>
   scan_fields (cstr (''2,47,0,x1,TD1,RXD3,SCL1,GSM_RX,2,1,,,,'' @ [CHR 0x0A])) 0 0 line_init =
     Fatal 3 ''x1'' \<and>
   (main ''ZEBRA'' (sample_header @ sample_row1 @
        ''2,47,0,x1,TD1,RXD3,SCL1,GSM_RX,2,1,,,,'' @ [CHR 0x0A]) :: 32 word run option) =
     Some \<lparr>exit_code = 99, stderr = [''Error: line 3, Field 3, String x1'' @ [CHR 0x0A]],
           table = [GSM_TX], decls_h = [print_pindef_h ''ZEBRA'' GSM_TX],
           decls_c = [print_pindef_c ''ZEBRA'' GSM_TX], images = None, defines_h = []\<rparr> \<and>
   field_len (cstr (''1,46,,0,RD1,TXD3,SDA1,GSM_TX,2,0,,,,'' @ [CHR 0x0A])) 2 = 0 \<and>
   scan_fields (cstr (''1,46,,0,RD1,TXD3,SDA1,GSM_TX,2,0,,,,'' @ [CHR 0x0A])) 0 0 line_init =
     Scanned (GSM_TX\<lparr>seq := 1\<rparr>) \<and>
   port (GSM_TX\<lparr>seq := 1\<rparr>) = 0 \<and>
   field_len (cstr (''2,47,0,,TD1,RXD3,SCL1,GSM_RX,2,1,,,,'' @ [CHR 0x0A])) 3 = 0 \<and>
   scan_fields (cstr (''2,47,0,,TD1,RXD3,SCL1,GSM_RX,2,1,,,,'' @ [CHR 0x0A])) 0 0 line_init =
     Scanned (GSM_RX\<lparr>seq := 2, bitno := 0\<rparr>) \<and>
   bitno (GSM_RX\<lparr>seq := 2, bitno := 0\<rparr>) = 0"
proof -
  let ?l = "''2,47,0,x1,TD1,RXD3,SCL1,GSM_RX,2,1,,,,'' @ [CHR 0x0A]"
  let ?p = "''1,46,,0,RD1,TXD3,SDA1,GSM_TX,2,0,,,,'' @ [CHR 0x0A]"
  let ?b = "''2,47,0,,TD1,RXD3,SCL1,GSM_RX,2,1,,,,'' @ [CHR 0x0A]"
  let ?init = "\<lparr>seqno = 0, lineno = 1, pins = [], fouth = [], foutc = []\<rparr>"
  let ?st = "\<lparr>seqno = Suc 0, lineno = Suc (Suc 0), pins = [GSM_TX],
      fouth = [print_pindef_h ''ZEBRA'' GSM_TX], foutc = [print_pindef_c ''ZEBRA'' GSM_TX]\<rparr>"
  have a: "take 3 (cstr ?l) \<noteq> ''END''" by code_simp
  have i3: "(3::nat) = 2 \<or> (3::nat) = 3" by simp
  have i2: "(2::nat) = 2 \<or> (2::nat) = 3" by simp
  have "\<forall>j\<in>set [0..<3]. field_passes (cstr ?l) j" by code_simp
  then have c: "\<forall>j<3. field_passes (cstr ?l) j" by simp
  have d: "field_len (cstr ?l) 3 \<noteq> 0" by code_simp
  have t: "field_text (cstr ?l) 3 = ''x1''" by code_simp
  have e: "sscanf_d (field_text (cstr ?l) 3) = Unmatched" by code_simp
  have f: "drop 1 (read_lines (sample_header @ sample_row1 @ ?l)) = [sample_row1] @ ?l # []"
    by code_simp
  have r1: "take 3 (cstr sample_row1) \<noteq> ''END''" by code_simp
  have r2: "scan_fields (cstr sample_row1) 0 0 line_init = Scanned (GSM_TX\<lparr>seq := 1\<rparr>)"
    by code_simp
  have r3: "strncpy ''RD1'' MAXCHARS = ''RD1''" "strncpy ''TXD3'' MAXCHARS = ''TXD3''"
    "strncpy ''SDA1'' MAXCHARS = ''SDA1''" "strncpy ''GSM_TX'' MAXCHARS = ''GSM_TX''"
    by code_simp+
  have g: "\<forall>more. main_loop ''ZEBRA'' ?init ([sample_row1] @ more) = main_loop ''ZEBRA'' ?st more"
    using r1 r2 r3 by (simp add: Let_def GSM_TX_def MAXPINS_def)
  have n: "digits 10 3 = ''3''" by code_simp
  have a2: "take 3 (cstr ?p) \<noteq> ''END''" by code_simp
  have "\<forall>j\<in>set [0..<14]. field_passes (cstr ?p) j" by code_simp
  then have p14: "\<forall>j<14. field_passes (cstr ?p) j" by simp
  then have p2: "\<forall>j<2. field_passes (cstr ?p) j" by simp
  have e2: "field_len (cstr ?p) 2 = 0" by code_simp
  have s2: "scan_fields (cstr ?p) 0 0 line_init = Scanned (GSM_TX\<lparr>seq := 1\<rparr>)" by code_simp
  have a3: "take 3 (cstr ?b) \<noteq> ''END''" by code_simp
  have "\<forall>j\<in>set [0..<14]. field_passes (cstr ?b) j" by code_simp
  then have b14: "\<forall>j<14. field_passes (cstr ?b) j" by simp
  then have b3: "\<forall>j<3. field_passes (cstr ?b) j" by simp
  have e3: "field_len (cstr ?b) 3 = 0" by code_simp
  have s3: "scan_fields (cstr ?b) 0 0 line_init = Scanned (GSM_RX\<lparr>seq := 2, bitno := 0\<rparr>)"
    by code_simp
  from required_field_fatal[OF a i3 c, where 'w = 32 and PREFIX = "''ZEBRA''" and st = ?st
      and ?file = "sample_header @ sample_row1 @ ?l" and pre = "[sample_row1]" and rest = "[]"]
    d e f g
  have one: "scan_fields (cstr ?l) 0 0 line_init = Fatal 3 (field_text (cstr ?l) 3) \<and>
      (main ''ZEBRA'' (sample_header @ sample_row1 @ ?l) :: 32 word run option) =
      Some \<lparr>exit_code = 99,
            stderr = [''Error: line '' @ digits 10 (int (lineno ?st + 1)) @ '', Field '' @
                      digits 10 (int 3) @ '', String '' @ field_text (cstr ?l) 3 @ [CHR 0x0A]],
            table = pins ?st, decls_h = fouth ?st, decls_c = foutc ?st,
            images = None, defines_h = []\<rparr>"
    by blast
  from required_field_fatal[OF a2 i2 p2, where 'w = 32] e2 p14 s2
  have two: "port (GSM_TX\<lparr>seq := 1\<rparr>) = 0" by auto
  from required_field_fatal[OF a3 i3 b3, where 'w = 32] e3 b14 s3
  have three: "bitno (GSM_RX\<lparr>seq := 2, bitno := 0\<rparr>) = 0" by auto
  from one two three a d t e e2 s2 e3 s3 show ?thesis
    by (simp add: n)
qed

text \<open>
  C4 as stated fails: in the first sample row with an empty port, the text of field
  2 does not scan as a number, and the run accepts the row with port 0 and exits
  with code 0; so does the second sample row with an empty bit, with bit 0.
\<close>

theorem empty_port_not_fatal:
  "sscanf_d (field_text (cstr (''1,46,,0,RD1,TXD3,SDA1,GSM_TX,2,0,,,,'' @ [CHR 0x0A])) 2) = Unmatched \<and>
   field_passes (cstr (''1,46,,0,RD1,TXD3,SDA1,GSM_TX,2,0,,,,'' @ [CHR 0x0A])) 0 \<and>
   field_passes (cstr (''1,46,,0,RD1,TXD3,SDA1,GSM_TX,2,0,,,,'' @ [CHR 0x0A])) 1 \<and>
   field_len (cstr (''1,46,,0,RD1,TXD3,SDA1,GSM_TX,2,0,,,,'' @ [CHR 0x0A])) 2 = 0 \<and>
   map_option (\<lambda>r. (exit_code r, stderr r, table r))
     (main ''ZEBRA'' (sample_header @ ''1,46,,0,RD1,TXD3,SDA1,GSM_TX,2,0,,,,'' @ [CHR 0x0A])
        :: 32 word run option) =
   Some (0, [''Processed 1 entries in 2 lines'' @ [CHR 0x0A]], [GSM_TX]) \<and>
   sscanf_d (field_text (cstr (''2,47,0,,TD1,RXD3,SCL1,GSM_RX,2,1,,,,'' @ [CHR 0x0A])) 3) = Unmatched \<and>
   field_len (cstr (''2,47,0,,TD1,RXD3,SCL1,GSM_RX,2,1,,,,'' @ [CHR 0x0A])) 3 = 0 \<and>
   map_option (\<lambda>r. (exit_code r, stderr r, table r))
     (main ''ZEBRA'' (sample_header @ ''2,47,0,,TD1,RXD3,SCL1,GSM_RX,2,1,,,,'' @ [CHR 0x0A])
        :: 32 word run option) =
   Some (0, [''Processed 1 entries in 2 lines'' @ [CHR 0x0A]], [GSM_RX\<lparr>seq := 0, bitno := 0\<rparr>])"
  by code_simp

end
